theory Spec2Isabelle
  imports Main "HOL-Library.Word" "HOL-Library.List_Lexorder" "HOL-Library.AList"
begin

section \<open>Strings and JSON values\<close>

text \<open>
  A JavaScript string is a sequence of UTF-16 code units, and the comparison that the
  default \<^verbatim>\<open>Array.prototype.sort\<close> and the operator \<^verbatim>\<open><\<close> use is the
  lexicographic order of these units. The list order of HOL-Library.List_Lexorder
  over the unsigned order of 16-bit words is that order.
\<close>

type_synonym jsstring = "16 word list"

definition lit :: "string \<Rightarrow> jsstring" where
  \<comment> \<open>a source literal whose characters are below U+0100\<close>
  "lit s = map (\<lambda>c. of_char c) s"

text \<open>
  The values \<^verbatim>\<open>JSON.parse\<close> produces. An array or an object is a heap object: the
  number it carries is its address, which is what \<^verbatim>\<open>===\<close> and \<^verbatim>\<open>Set\<close> membership
  compare. An object lists its own properties in the order of \<^verbatim>\<open>Object.entries\<close>.
  A number is a double, and the script only compares numbers for identity, tests them for
  zero and prints them; it is carried as its string form \<^verbatim>\<open>String(n)\<close>, which is the
  same for two numbers exactly when a Set takes them for the same (both zeros print as
  "0"), so that all three are exact. \<^verbatim>\<open>JSON.parse\<close> never yields NaN.
\<close>

datatype json =
    JNull
  | JBool bool
  | JNum jsstring
  | JStr jsstring
  | JArr nat "json list"
  | JObj nat "(jsstring \<times> json) list"

fun joinWith :: "jsstring \<Rightarrow> jsstring list \<Rightarrow> jsstring" where
  "joinWith sep [] = []"
| "joinWith sep [x] = x"
| "joinWith sep (x # y # ys) = x @ sep @ joinWith sep (y # ys)"

text \<open>
  \<^verbatim>\<open>String(v)\<close>, as the default sort, template literals and \<^verbatim>\<open>join\<close> apply it. An
  array prints as its elements joined by a comma, where \<^verbatim>\<open>null\<close> elements print as the
  empty string.
\<close>

fun toString :: "json \<Rightarrow> jsstring" where
  "toString JNull = lit ''null''"
| "toString (JBool b) = (if b then lit ''true'' else lit ''false'')"
| "toString (JNum r) = r"
| "toString (JStr s) = s"
| "toString (JArr a xs) =
     joinWith (lit '','') (map (\<lambda>x. if x = JNull then [] else toString x) xs)"
| "toString (JObj a kvs) = lit ''[object Object]''"

definition join :: "json list \<Rightarrow> jsstring \<Rightarrow> jsstring" where
  \<comment> \<open>\<^verbatim>\<open>xs.join(sep)\<close>\<close>
  "join xs sep = joinWith sep (map (\<lambda>x. if x = JNull then [] else toString x) xs)"

definition jsSort :: "json list \<Rightarrow> json list" where
  \<comment> \<open>\<^verbatim>\<open>xs.sort()\<close> with no comparator: stable, by the code units of \<^verbatim>\<open>String(v)\<close>\<close>
  "jsSort xs = sort_key toString xs"

fun truthy :: "json \<Rightarrow> bool" where
  "truthy JNull = False"
| "truthy (JBool b) = b"
| "truthy (JNum r) = (r \<noteq> lit ''0'')"
| "truthy (JStr s) = (s \<noteq> [])"
| "truthy (JArr a xs) = True"
| "truthy (JObj a kvs) = True"

fun ident :: "json \<Rightarrow> json" where
  \<comment> \<open>what identifies a value: a primitive is its value, a heap object is its address\<close>
  "ident (JArr a xs) = JArr a []"
| "ident (JObj a kvs) = JObj a []"
| "ident v = v"

definition sameValueZero :: "json \<Rightarrow> json \<Rightarrow> bool" where
  \<comment> \<open>the comparison of \<^verbatim>\<open>Set\<close>; on parsed JSON (no NaN) it is also \<^verbatim>\<open>===\<close>\<close>
  "sameValueZero x y = (ident x = ident y)"

subsection \<open>Parsing allocates\<close>

text \<open>
  What a JSON text denotes has no addresses. \<^verbatim>\<open>JSON.parse\<close> builds it on the heap: every
  array and object of the result is a new heap object. The heap is the next free address;
  a value takes as many addresses as it has arrays and objects.
\<close>

datatype tree =
    TNull
  | TBool bool
  | TNum jsstring
  | TStr jsstring
  | TArr "tree list"
  | TObj "(jsstring \<times> tree) list"

fun objects :: "tree \<Rightarrow> nat" where
  \<comment> \<open>the number of arrays and objects in a value\<close>
  "objects (TArr xs) = Suc (sum_list (map objects xs))"
| "objects (TObj kvs) = Suc (sum_list (map (\<lambda>kv. objects (snd kv)) kvs))"
| "objects t = 0"

fun allocate :: "nat \<Rightarrow> tree \<Rightarrow> json"
  and allocateAll :: "nat \<Rightarrow> tree list \<Rightarrow> json list"
  and allocateEntries :: "nat \<Rightarrow> (jsstring \<times> tree) list \<Rightarrow> (jsstring \<times> json) list"
where
  "allocate h TNull = JNull"
| "allocate h (TBool b) = JBool b"
| "allocate h (TNum r) = JNum r"
| "allocate h (TStr s) = JStr s"
| "allocate h (TArr xs) = JArr h (allocateAll (Suc h) xs)"
| "allocate h (TObj kvs) = JObj h (allocateEntries (Suc h) kvs)"
| "allocateAll h [] = []"
| "allocateAll h (x # xs) = allocate h x # allocateAll (h + objects x) xs"
| "allocateEntries h [] = []"
| "allocateEntries h ((k, v) # kvs) = (k, allocate h v) # allocateEntries (h + objects v) kvs"

subsection \<open>The built-in Set, as the list of its members in insertion order\<close>

definition Set_has :: "('a \<Rightarrow> 'a \<Rightarrow> bool) \<Rightarrow> 'a list \<Rightarrow> 'a \<Rightarrow> bool" where
  "Set_has eq s v = list_ex (\<lambda>w. eq w v) s"

definition Set_add :: "('a \<Rightarrow> 'a \<Rightarrow> bool) \<Rightarrow> 'a list \<Rightarrow> 'a \<Rightarrow> 'a list" where
  "Set_add eq s v = (if Set_has eq s v then s else s @ [v])"

definition Set_new :: "('a \<Rightarrow> 'a \<Rightarrow> bool) \<Rightarrow> 'a list \<Rightarrow> 'a list" where
  "Set_new eq xs = foldl (Set_add eq) [] xs"

definition Set_delete :: "('a \<Rightarrow> 'a \<Rightarrow> bool) \<Rightarrow> 'a list \<Rightarrow> 'a \<Rightarrow> 'a list" where
  "Set_delete eq s v = filter (\<lambda>w. \<not> eq w v) s"

subsection \<open>Property access and type tests\<close>

fun getProp :: "json \<Rightarrow> jsstring \<Rightarrow> json option" where
  \<comment> \<open>\<^verbatim>\<open>node.name\<close> for the names \<^verbatim>\<open>type\<close>, \<^verbatim>\<open>enum\<close>, \<^verbatim>\<open>properties\<close>, \<^verbatim>\<open>required\<close>, which no
      prototype defines: an own property of an object, otherwise \<^verbatim>\<open>undefined\<close>\<close>
  "getProp (JObj a kvs) k = map_of kvs k"
| "getProp v k = None"

definition isArray :: "json option \<Rightarrow> json list option" where
  \<comment> \<open>\<^verbatim>\<open>Array.isArray(v)\<close>, returning the elements\<close>
  "isArray v = (case v of Some (JArr a xs) \<Rightarrow> Some xs | _ \<Rightarrow> None)"

definition isObject :: "json option \<Rightarrow> (jsstring \<times> json) list option" where
  \<comment> \<open>\<^verbatim>\<open>isObject(x)\<close>, returning the entries\<close>
  "isObject v = (case v of Some (JObj a kvs) \<Rightarrow> Some kvs | _ \<Rightarrow> None)"

section \<open>FieldFlattener\<close>

definition normalizeType :: "json option \<Rightarrow> json \<times> bool" where
  \<comment> \<open>the pair is \<^verbatim>\<open>{ type, nullable }\<close>\<close>
  "normalizeType t =
     (case t of
        Some (JArr a xs) \<Rightarrow>
          (let s = Set_new sameValueZero xs;
               nullable = Set_has sameValueZero s (JStr (lit ''null''));
               s' = Set_delete sameValueZero s (JStr (lit ''null''));
               rest = jsSort s'
           in (if length rest = 1 then hd rest
               else if length rest \<noteq> 0 then JStr (join rest (lit ''|''))
               else JStr (lit ''unknown''), nullable))
      | Some (JStr s) \<Rightarrow> (JStr s, False)
      | _ \<Rightarrow> (JStr (lit ''unknown''), False))"

section \<open>EnumComparator\<close>

definition enumDiff :: "json list option \<Rightarrow> json list option \<Rightarrow> json list \<times> json list" where
  \<comment> \<open>the pair is \<^verbatim>\<open>{ removed, added }\<close>; \<^verbatim>\<open>None\<close> is \<^verbatim>\<open>null\<close>\<close>
  "enumDiff oldEnum newEnum =
     (let a = Set_new sameValueZero (case oldEnum of Some xs \<Rightarrow> xs | None \<Rightarrow> []);
          b = Set_new sameValueZero (case newEnum of Some xs \<Rightarrow> xs | None \<Rightarrow> []);
          removed = filter (\<lambda>v. \<not> Set_has sameValueZero b v) a;
          added = filter (\<lambda>v. \<not> Set_has sameValueZero a v) b
      in (jsSort removed, jsSort added))"

section \<open>FieldFlattener: the traversal\<close>

record field =
  f_path :: jsstring
  f_type :: json
  f_nullable :: bool
  f_required :: bool
  f_enum :: "json list option"

definition childPath :: "jsstring \<Rightarrow> jsstring \<Rightarrow> jsstring" where
  \<comment> \<open>\<^verbatim>\<open>path ? `${path}.${k}` : k\<close>\<close>
  "childPath path k = (if path \<noteq> [] then path @ lit ''.'' @ k else k)"

definition childReq :: "jsstring \<Rightarrow> json list \<Rightarrow> jsstring list" where
  "childReq path required =
     foldl (\<lambda>s r. case r of JStr n \<Rightarrow> Set_add (=) s (childPath path n) | _ \<Rightarrow> s) [] required"

definition requiredOf :: "json \<Rightarrow> json list" where
  \<comment> \<open>\<^verbatim>\<open>Array.isArray(node.required) ? node.required : []\<close>\<close>
  "requiredOf node = (case isArray (getProp node (lit ''required'')) of Some rs \<Rightarrow> rs | None \<Rightarrow> [])"

definition descriptor :: "json \<Rightarrow> jsstring \<Rightarrow> bool \<Rightarrow> field" where
  \<comment> \<open>the object that \<^verbatim>\<open>walk\<close> stores for a node\<close>
  "descriptor node path req =
     (let t = normalizeType (getProp node (lit ''type''))
      in \<lparr> f_path = path, f_type = fst t, f_nullable = snd t, f_required = req,
           f_enum = isArray (getProp node (lit ''enum'')) \<rparr>)"

lemma size_entry:
  "(k, v) \<in> set kvs \<Longrightarrow> size v < Suc (size_list (size_prod (\<lambda>x. 0) size) kvs)"
  by (induction kvs) auto

lemma getProp_size: "getProp node k = Some v \<Longrightarrow> size v < size node"
proof (cases node)
  case (JObj a kvs)
  assume "getProp node k = Some v"
  with JObj have "(k, v) \<in> set kvs" by (simp add: map_of_SomeD)
  from size_entry[OF this] JObj show ?thesis by simp
qed simp_all

text \<open>
  The map \<^verbatim>\<open>fields\<close> is an association list in insertion order; \<^verbatim>\<open>fields.set\<close> is
  \<^const>\<open>AList.update\<close>, which replaces the value of a key that is present and appends a
  new key. The closure \<^verbatim>\<open>walk\<close> takes the map and returns it updated.
\<close>

function walk ::
  "json \<Rightarrow> jsstring \<Rightarrow> jsstring list \<Rightarrow> (jsstring \<times> field) list \<Rightarrow> (jsstring \<times> field) list"
where
  "walk node path requiredNames fields0 =
     (if \<not> truthy node then fields0
      else
        let req = Set_has (=) requiredNames path;
            fields1 = (if path \<noteq> [] then AList.update path (descriptor node path req) fields0
                       else fields0)
        in case isObject (getProp node (lit ''properties'')) of
             Some props \<Rightarrow>
               foldl (\<lambda>acc kv. walk (snd kv) (childPath path (fst kv))
                                  (childReq path (requiredOf node)) acc)
                 fields1 props
           | None \<Rightarrow> fields1)"
  by pat_completeness auto
termination
proof (relation "measure (\<lambda>(node, p, r, f). size node)")
  fix node :: json and path :: jsstring and requiredNames :: "jsstring list"
    and fields0 :: "(jsstring \<times> field) list" and x xa x2 and xb :: "(jsstring \<times> field) list" and z
  assume "isObject (getProp node (lit ''properties'')) = Some x2" and "z \<in> set x2"
  then obtain a where g: "getProp node (lit ''properties'') = Some (JObj a x2)"
    by (auto simp: isObject_def split: option.splits json.splits)
  have "(fst z, snd z) \<in> set x2" using \<open>z \<in> set x2\<close> by simp
  from size_entry[OF this] getProp_size[OF g]
  show "((snd z, childPath path (fst z), childReq path (requiredOf node), xb),
         node, path, requiredNames, fields0) \<in> measure (\<lambda>(node, p, r, f). size node)"
    by simp
qed simp

definition flatten :: "json \<Rightarrow> (jsstring \<times> field) list" where
  "flatten schema = walk schema [] [] []"

section \<open>PolicyResolver\<close>

text \<open>
  The policy tables are plain objects whose own properties are severity strings. Reading
  \<^verbatim>\<open>obj[key]\<close> finds an own property first and otherwise a member of
  \<^verbatim>\<open>Object.prototype\<close>: a built-in function under eleven names, and the prototype object
  itself under \<^verbatim>\<open>__proto__\<close>.
\<close>

definition objectPrototypeNames :: "jsstring list" where
  "objectPrototypeNames =
     [lit ''constructor'', lit ''__defineGetter__'', lit ''__defineSetter__'',
      lit ''hasOwnProperty'', lit ''__lookupGetter__'', lit ''__lookupSetter__'',
      lit ''isPrototypeOf'', lit ''propertyIsEnumerable'', lit ''toString'', lit ''valueOf'',
      lit ''__proto__'', lit ''toLocaleString'']"

datatype jsval =
    Str jsstring
  | Member jsstring  \<comment> \<open>what every plain object inherits under this name\<close>

datatype error =
    TypeError  \<comment> \<open>the owner teams are not iterable\<close>
  | ExecError  \<comment> \<open>\<^verbatim>\<open>execSync\<close> failed outside a \<^verbatim>\<open>try\<close>\<close>

datatype iterable =
    Iterable "jsstring list"  \<comment> \<open>the property keys that a \<^verbatim>\<open>for ... of\<close> over the value yields\<close>
  | NotIterable

definition member :: "(jsstring \<rightharpoonup> jsstring) \<Rightarrow> jsstring \<Rightarrow> jsval option" where
  \<comment> \<open>\<^verbatim>\<open>obj[key]\<close>; \<^verbatim>\<open>None\<close> is \<^verbatim>\<open>undefined\<close>\<close>
  "member obj key =
     (case obj key of
        Some v \<Rightarrow> Some (Str v)
      | None \<Rightarrow> if key \<in> set objectPrototypeNames then Some (Member key) else None)"

fun truthyVal :: "jsval \<Rightarrow> bool" where
  "truthyVal (Str v) = (v \<noteq> [])"
| "truthyVal (Member n) = True"

definition memberText :: "jsstring \<Rightarrow> jsstring" where
  \<comment> \<open>the string form of the inherited member, as Node prints it\<close>
  "memberText n =
     (if n = lit ''__proto__'' then lit ''[object Object]''
      else lit ''function '' @ (if n = lit ''constructor'' then lit ''Object'' else n)
             @ lit ''() { [native code] }'')"

definition DEFAULT_POLICY :: "jsstring \<rightharpoonup> jsstring" where
  "DEFAULT_POLICY = map_of
     [(lit ''FIELD_REMOVED_REQUIRED'', lit ''block''),
      (lit ''FIELD_REMOVED_OPTIONAL'', lit ''warn''),
      (lit ''FIELD_ADDED_REQUIRED'', lit ''block''),
      (lit ''FIELD_ADDED_OPTIONAL'', lit ''pass''),
      (lit ''REQUIRED_BECOMES_REQUIRED'', lit ''block''),
      (lit ''REQUIRED_BECOMES_OPTIONAL'', lit ''warn''),
      (lit ''TYPE_CHANGED'', lit ''block''),
      (lit ''ENUM_VALUE_REMOVED'', lit ''block''),
      (lit ''ENUM_VALUE_ADDED'', lit ''pass''),
      (lit ''FILE_REMOVED'', lit ''block''),
      (lit ''FILE_ADDED'', lit ''pass''),
      (lit ''INVALID_JSON'', lit ''block'')]"

record policy =
  POLICY_DEFAULT :: "jsstring \<rightharpoonup> jsstring"
  POLICY_OVERRIDES_BY_OWNER :: "jsstring \<rightharpoonup> (jsstring \<rightharpoonup> jsstring)"

text \<open>
  The content of \<^verbatim>\<open>eventdiff.config.json\<close>, once parsed, where \<^verbatim>\<open>cfg.policy\<close> is an
  object: \<^verbatim>\<open>cfg_default\<close> is \<^verbatim>\<open>cfg.policy.default\<close> when that is an object,
  \<^verbatim>\<open>cfg_flat\<close> the severities that \<^verbatim>\<open>cfg.policy\<close> itself maps rule keys to (the old
  format), \<^verbatim>\<open>cfg_overrides\<close> is \<^verbatim>\<open>cfg.policy.overrides_by_owner\<close> when that is an
  object. A missing or unreadable file, or one without a policy object, is \<^verbatim>\<open>None\<close>.
\<close>

record config =
  cfg_default :: "(jsstring \<rightharpoonup> jsstring) option"
  cfg_flat :: "jsstring \<rightharpoonup> jsstring"
  cfg_overrides :: "(jsstring \<rightharpoonup> (jsstring \<rightharpoonup> jsstring)) option"

definition configured :: "config option \<Rightarrow> jsstring \<rightharpoonup> jsstring" where
  \<comment> \<open>the object that is spread over \<^verbatim>\<open>DEFAULT_POLICY\<close>\<close>
  "configured cfg =
     (case cfg of
        None \<Rightarrow> Map.empty
      | Some c \<Rightarrow> (case cfg_default c of Some d \<Rightarrow> d | None \<Rightarrow> cfg_flat c))"

definition loadPolicy :: "config option \<Rightarrow> policy" where
  "loadPolicy cfg =
     \<lparr> POLICY_DEFAULT = DEFAULT_POLICY ++ configured cfg,
       POLICY_OVERRIDES_BY_OWNER =
         (case cfg of
            None \<Rightarrow> Map.empty
          | Some c \<Rightarrow> (case cfg_overrides c of Some ov \<Rightarrow> ov | None \<Rightarrow> Map.empty)) \<rparr>"

definition SEV_RANK :: "jsstring \<rightharpoonup> nat" where
  "SEV_RANK = map_of [(lit ''pass'', 0), (lit ''warn'', 1), (lit ''block'', 2)]"

definition rankOf :: "jsval \<Rightarrow> nat + jsstring" where
  \<comment> \<open>\<^verbatim>\<open>SEV_RANK[a] ?? 1\<close>: the property key is the string form of \<^verbatim>\<open>a\<close>; a number is
      \<^verbatim>\<open>Inl\<close>, an inherited member is \<^verbatim>\<open>Inr\<close> of its string form\<close>
  "rankOf a =
     (let k = (case a of Str v \<Rightarrow> v | Member n \<Rightarrow> memberText n)
      in case SEV_RANK k of
           Some r \<Rightarrow> Inl r
         | None \<Rightarrow> if k \<in> set objectPrototypeNames then Inr (memberText k) else Inl 1)"

fun geq :: "nat + jsstring \<Rightarrow> nat + jsstring \<Rightarrow> bool" where
  \<comment> \<open>\<^verbatim>\<open>x >= y\<close>: two numbers by value, two objects by their string forms, and false when
      one is a number and the other an object (which converts to NaN)\<close>
  "geq (Inl a) (Inl b) = (a \<ge> b)"
| "geq (Inr s) (Inr t) = (s \<ge> t)"
| "geq x y = False"

definition maxSev :: "jsval \<Rightarrow> jsval \<Rightarrow> jsval" where
  "maxSev a b = (if geq (rankOf a) (rankOf b) then a else b)"

definition overrideOf :: "policy \<Rightarrow> jsstring \<Rightarrow> jsstring \<Rightarrow> jsval option" where
  \<comment> \<open>\<^verbatim>\<open>teamPolicy[key]\<close> where \<^verbatim>\<open>teamPolicy\<close> is a truthy object, else \<^verbatim>\<open>undefined\<close>.
      A team without an own entry reads an inherited member: a function, which is not an
      object, or under \<^verbatim>\<open>__proto__\<close> the prototype object, whose own \<^verbatim>\<open>__proto__\<close> is
      \<^verbatim>\<open>null\<close>\<close>
  "overrideOf pol team key =
     (case POLICY_OVERRIDES_BY_OWNER pol team of
        Some teamPolicy \<Rightarrow> member teamPolicy key
      | None \<Rightarrow>
          if team = lit ''__proto__'' \<and> key \<in> set objectPrototypeNames \<and> key \<noteq> lit ''__proto__''
          then Some (Member key) else None)"

definition applyOverride :: "policy \<Rightarrow> jsstring \<Rightarrow> jsval \<Rightarrow> jsstring \<Rightarrow> jsval" where
  \<comment> \<open>the body of the loop over the owner teams\<close>
  "applyOverride pol key s team =
     (case overrideOf pol team key of
        Some override \<Rightarrow> if truthyVal override then maxSev s override else s
      | None \<Rightarrow> s)"

definition sevForOwner :: "policy \<Rightarrow> jsstring \<Rightarrow> iterable \<Rightarrow> error + jsval" where
  "sevForOwner pol key ownerTeams =
     (let s = (case member (POLICY_DEFAULT pol) key of
                 Some v \<Rightarrow> if truthyVal v then v else Str (lit ''warn'')
               | None \<Rightarrow> Str (lit ''warn''))
      in case ownerTeams of
           Iterable teams \<Rightarrow> Inr (foldl (applyOverride pol key) s teams)
         | NotIterable \<Rightarrow> Inl TypeError)"

section \<open>SchemaDiffer\<close>

record change =
  c_severity :: jsval
  c_kind :: jsstring
  c_path :: jsstring
  c_message :: jsstring

record summary =
  s_decision :: jsstring
  s_blocks :: nat
  s_warns :: nat
  s_passes :: nat

definition diffPaths :: "(jsstring \<times> field) list \<Rightarrow> (jsstring \<times> field) list \<Rightarrow> jsstring list" where
  \<comment> \<open>\<^verbatim>\<open>Array.from(new Set([...A.keys(), ...B.keys()])).sort()\<close>\<close>
  "diffPaths A B = sort (Set_new (=) (map fst A @ map fst B))"

definition nullableText :: "bool \<Rightarrow> jsstring" where
  "nullableText n = (if n then lit '' (nullable)'' else [])"

definition typeChangedMessage :: "jsstring \<Rightarrow> field \<Rightarrow> field \<Rightarrow> jsstring" where
  \<comment> \<open>the arrow is U+2192\<close>
  "typeChangedMessage path a b =
     lit ''Type changed '' @ [39] @ path @ [39] @ lit '': '' @ toString (f_type a)
       @ nullableText (f_nullable a) @ lit '' '' @ [0x2192] @ lit '' '' @ toString (f_type b)
       @ nullableText (f_nullable b)"

definition summarize :: "change list \<Rightarrow> summary" where
  "summarize changes =
     (let blocks = length (filter (\<lambda>c. c_severity c = Str (lit ''block'')) changes);
          warns = length (filter (\<lambda>c. c_severity c = Str (lit ''warn'')) changes);
          passes = length (filter (\<lambda>c. c_severity c = Str (lit ''pass'')) changes)
      in \<lparr> s_decision = (if blocks > 0 then lit ''FAIL'' else lit ''PASS''),
           s_blocks = blocks, s_warns = warns, s_passes = passes \<rparr>)"

text \<open>
  An exception leaves the function that raised it and every caller without a
  \<^verbatim>\<open>try\<close>: a result is \<^verbatim>\<open>Inl\<close> of the exception or \<^verbatim>\<open>Inr\<close> of the value, and a loop
  stops at the first exception.
\<close>

definition andThen :: "'e + 'a \<Rightarrow> ('a \<Rightarrow> 'e + 'b) \<Rightarrow> 'e + 'b" where
  "andThen m f = (case m of Inl e \<Rightarrow> Inl e | Inr x \<Rightarrow> f x)"

fun forEach :: "('s \<Rightarrow> 'a \<Rightarrow> 'e + 's) \<Rightarrow> 's \<Rightarrow> 'a list \<Rightarrow> 'e + 's" where
  \<comment> \<open>\<^verbatim>\<open>for (const x of xs)\<close> over a body that updates the state\<close>
  "forEach body s [] = Inr s"
| "forEach body s (x # xs) =
     (case body s x of Inl e \<Rightarrow> Inl e | Inr s' \<Rightarrow> forEach body s' xs)"

definition push :: "error + jsval \<Rightarrow> (jsval \<Rightarrow> change) \<Rightarrow> change list \<Rightarrow> error + change list" where
  \<comment> \<open>\<^verbatim>\<open>changes.push({ severity: sevForOwner(...), ... })\<close>: the severity is evaluated
      first, and nothing is pushed when it throws\<close>
  "push sev mk changes =
     (case sev of Inl e \<Rightarrow> Inl e | Inr s \<Rightarrow> Inr (changes @ [mk s]))"

definition changesAt ::
  "policy \<Rightarrow> iterable \<Rightarrow> (jsstring \<times> field) list \<Rightarrow> (jsstring \<times> field) list
     \<Rightarrow> change list \<Rightarrow> jsstring \<Rightarrow> error + change list"
where
  \<comment> \<open>one iteration of the loop over the sorted paths, on the array \<^verbatim>\<open>changes\<close> (the
      policy-aware script)\<close>
  "changesAt pol ownerTeams A B changes path =
     (case (map_of A path, map_of B path) of
        (Some a, None) \<Rightarrow>
          push (if f_required a
                then sevForOwner pol (lit ''FIELD_REMOVED_REQUIRED'') ownerTeams
                else sevForOwner pol (lit ''FIELD_REMOVED_OPTIONAL'') ownerTeams)
            (\<lambda>s. \<lparr> c_severity = s,
                    c_kind = lit ''FIELD_REMOVED'',
                    c_path = path,
                    c_message = (if f_required a
                                 then lit ''Removed required field '' @ [39] @ path @ [39] @ lit ''.''
                                 else lit ''Removed optional field '' @ [39] @ path @ [39] @ lit ''.'') \<rparr>)
            changes
      | (None, Some b) \<Rightarrow>
          push (if f_required b
                then sevForOwner pol (lit ''FIELD_ADDED_REQUIRED'') ownerTeams
                else sevForOwner pol (lit ''FIELD_ADDED_OPTIONAL'') ownerTeams)
            (\<lambda>s. \<lparr> c_severity = s,
                    c_kind = lit ''FIELD_ADDED'',
                    c_path = path,
                    c_message = (if f_required b
                                 then lit ''Added required field '' @ [39] @ path @ [39] @ lit ''.''
                                 else lit ''Added optional field '' @ [39] @ path @ [39] @ lit ''.'') \<rparr>)
            changes
      | (None, None) \<Rightarrow> Inr changes
      | (Some a, Some b) \<Rightarrow>
          andThen
            (if f_required a \<noteq> f_required b then
               push (if \<not> f_required a \<and> f_required b
                     then sevForOwner pol (lit ''REQUIRED_BECOMES_REQUIRED'') ownerTeams
                     else sevForOwner pol (lit ''REQUIRED_BECOMES_OPTIONAL'') ownerTeams)
                 (\<lambda>s. \<lparr> c_severity = s,
                         c_kind = (if \<not> f_required a \<and> f_required b
                                   then lit ''REQUIRED_BECOMES_REQUIRED''
                                   else lit ''REQUIRED_BECOMES_OPTIONAL''),
                         c_path = path,
                         c_message = (if \<not> f_required a \<and> f_required b
                                      then lit ''Optional '' @ [0x2192] @ lit '' required: ''
                                             @ [39] @ path @ [39] @ lit ''.''
                                      else lit ''Required '' @ [0x2192] @ lit '' optional: ''
                                             @ [39] @ path @ [39] @ lit ''.'') \<rparr>)
                 changes
             else Inr changes)
            (\<lambda>changes1.
          andThen
            (if \<not> sameValueZero (f_type a) (f_type b) \<or> f_nullable a \<noteq> f_nullable b then
               push (sevForOwner pol (lit ''TYPE_CHANGED'') ownerTeams)
                 (\<lambda>s. \<lparr> c_severity = s,
                         c_kind = lit ''TYPE_CHANGED'',
                         c_path = path,
                         c_message = typeChangedMessage path a b \<rparr>)
                 changes1
             else Inr changes1)
            (\<lambda>changes2.
          let ed = enumDiff (f_enum a) (f_enum b)
          in andThen
               (if length (fst ed) \<noteq> 0 then
                  push (sevForOwner pol (lit ''ENUM_VALUE_REMOVED'') ownerTeams)
                    (\<lambda>s. \<lparr> c_severity = s,
                            c_kind = lit ''ENUM_VALUE_REMOVED'',
                            c_path = path,
                            c_message = lit ''Enum removed from '' @ [39] @ path @ [39] @ lit '': ''
                                          @ join (fst ed) (lit '', '') \<rparr>)
                    changes2
                else Inr changes2)
               (\<lambda>changes3.
                  if length (snd ed) \<noteq> 0 then
                    push (sevForOwner pol (lit ''ENUM_VALUE_ADDED'') ownerTeams)
                      (\<lambda>s. \<lparr> c_severity = s,
                              c_kind = lit ''ENUM_VALUE_ADDED'',
                              c_path = path,
                              c_message = lit ''Enum added to '' @ [39] @ path @ [39] @ lit '': ''
                                            @ join (snd ed) (lit '', '') \<rparr>)
                      changes3
                  else Inr changes3))))"

definition diff ::
  "policy \<Rightarrow> json \<Rightarrow> json \<Rightarrow> iterable \<Rightarrow> error + (summary \<times> change list)"
where
  \<comment> \<open>\<^verbatim>\<open>diff(oldSchema, newSchema, ownerTeams)\<close> of the policy-aware script; the pair is
      \<^verbatim>\<open>{ summary, changes }\<close>\<close>
  "diff pol oldSchema newSchema ownerTeams =
     (let A = flatten oldSchema;
          B = flatten newSchema
      in case forEach (changesAt pol ownerTeams A B) [] (diffPaths A B) of
           Inl e \<Rightarrow> Inl e
         | Inr changes \<Rightarrow> Inr (summarize changes, changes))"

text \<open>The script \<^verbatim>\<open>cli/eventdiff.mjs\<close> has the same loop with literal severities.\<close>

definition changesAt_cli ::
  "(jsstring \<times> field) list \<Rightarrow> (jsstring \<times> field) list \<Rightarrow> jsstring \<Rightarrow> change list"
where
  "changesAt_cli A B path =
     (case (map_of A path, map_of B path) of
        (Some a, None) \<Rightarrow>
          [\<lparr> c_severity = (if f_required a then Str (lit ''block'') else Str (lit ''warn'')),
              c_kind = lit ''FIELD_REMOVED'',
              c_path = path,
              c_message = (if f_required a
                           then lit ''Removed required field '' @ [39] @ path @ [39] @ lit ''.''
                           else lit ''Removed optional field '' @ [39] @ path @ [39] @ lit ''.'') \<rparr>]
      | (None, Some b) \<Rightarrow>
          [\<lparr> c_severity = (if f_required b then Str (lit ''block'') else Str (lit ''pass'')),
              c_kind = lit ''FIELD_ADDED'',
              c_path = path,
              c_message = (if f_required b
                           then lit ''Added required field '' @ [39] @ path @ [39] @ lit ''.''
                           else lit ''Added optional field '' @ [39] @ path @ [39] @ lit ''.'') \<rparr>]
      | (None, None) \<Rightarrow> []
      | (Some a, Some b) \<Rightarrow>
          (if f_required a \<noteq> f_required b then
             [\<lparr> c_severity = (if \<not> f_required a \<and> f_required b then Str (lit ''block'')
                               else Str (lit ''warn'')),
                 c_kind = lit ''REQUIRED_CHANGED'',
                 c_path = path,
                 c_message = (if \<not> f_required a \<and> f_required b
                              then lit ''Optional '' @ [0x2192] @ lit '' required: ''
                                     @ [39] @ path @ [39] @ lit ''.''
                              else lit ''Required '' @ [0x2192] @ lit '' optional: ''
                                     @ [39] @ path @ [39] @ lit ''.'') \<rparr>]
           else [])
          @ (if \<not> sameValueZero (f_type a) (f_type b) \<or> f_nullable a \<noteq> f_nullable b then
               [\<lparr> c_severity = Str (lit ''block''),
                   c_kind = lit ''TYPE_CHANGED'',
                   c_path = path,
                   c_message = typeChangedMessage path a b \<rparr>]
             else [])
          @ (let ed = enumDiff (f_enum a) (f_enum b)
             in (if length (fst ed) \<noteq> 0 then
                   [\<lparr> c_severity = Str (lit ''block''),
                       c_kind = lit ''ENUM_VALUE_REMOVED'',
                       c_path = path,
                       c_message = lit ''Enum removed from '' @ [39] @ path @ [39] @ lit '': ''
                                     @ join (fst ed) (lit '', '') \<rparr>]
                 else [])
                @ (if length (snd ed) \<noteq> 0 then
                     [\<lparr> c_severity = Str (lit ''pass''),
                         c_kind = lit ''ENUM_VALUE_ADDED'',
                         c_path = path,
                         c_message = lit ''Enum added to '' @ [39] @ path @ [39] @ lit '': ''
                                       @ join (snd ed) (lit '', '') \<rparr>]
                   else [])))"

definition diff_cli :: "json \<Rightarrow> json \<Rightarrow> summary \<times> change list" where
  \<comment> \<open>\<^verbatim>\<open>diff(oldSchema, newSchema)\<close> of \<^verbatim>\<open>cli/eventdiff.mjs\<close>\<close>
  "diff_cli oldSchema newSchema =
     (let A = flatten oldSchema;
          B = flatten newSchema;
          changes = concat (map (changesAt_cli A B) (diffPaths A B))
      in (summarize changes, changes))"

section \<open>RunAggregator (the policy-aware script)\<close>

text \<open>
  What the script reaches outside itself: \<^verbatim>\<open>git show ref:path\<close> (its trimmed output, or
  \<^verbatim>\<open>None\<close> when the command fails), \<^verbatim>\<open>JSON.parse\<close> (what the text denotes, or
  \<^verbatim>\<open>None\<close> when it throws), \<^verbatim>\<open>path.basename\<close> and the parsed \<^verbatim>\<open>owners.json\<close>, a plain
  object of JSON values. The listing \<^verbatim>\<open>git diff --name-only\<close> is an argument of the run:
  its lines, trimmed and without the empty ones, or \<^verbatim>\<open>None\<close> when the command fails,
  which nothing catches. An uncaught exception ends the process with exit code 1. Console
  lines other than the report are not modelled.
\<close>

record env =
  gitShow :: "json \<Rightarrow> jsstring \<Rightarrow> jsstring option"
  jsonParse :: "jsstring \<Rightarrow> tree option"
  basename :: "jsstring \<Rightarrow> jsstring"
  OWNERS :: "jsstring \<rightharpoonup> json"

record args =
  a_base :: "json option"
  a_head :: "json option"
  a_dir :: "json option"

record report =
  r_file :: jsstring
  r_summary :: summary
  r_changes :: "change list"

record run_report =
  rr_base :: json
  rr_head :: json
  rr_dir :: json
  rr_summary :: summary
  rr_reports :: "report list"

record outcome =
  exitCode :: nat
  final :: "run_report option"
  retrievals :: "(json \<times> jsstring) list"
  uncaught :: "error option"

record loop_state =
  l_reports :: "report list"
  l_anyBlock :: bool
  l_retrieved :: "(json \<times> jsstring) list"
  l_heap :: nat

definition tryGitShow :: "env \<Rightarrow> json \<Rightarrow> jsstring \<Rightarrow> bool \<times> jsstring option" where
  \<comment> \<open>the pair is \<^verbatim>\<open>{ ok, content }\<close>\<close>
  "tryGitShow e ref path =
     (case gitShow e ref path of Some content \<Rightarrow> (True, Some content) | None \<Rightarrow> (False, None))"

definition safeJsonParse :: "env \<Rightarrow> nat \<Rightarrow> jsstring option \<Rightarrow> json option \<times> nat" where
  \<comment> \<open>\<^verbatim>\<open>JSON.parse\<close> converts its argument to a string, \<^verbatim>\<open>null\<close> to \<^verbatim>\<open>"null"\<close>, and
      allocates its result; the pair is \<^verbatim>\<open>value\<close> when \<^verbatim>\<open>ok\<close> (the error text is
      dropped) and the heap after the call\<close>
  "safeJsonParse e h text =
     (case jsonParse e (case text of None \<Rightarrow> lit ''null'' | Some t \<Rightarrow> t) of
        Some t \<Rightarrow> (Some (allocate h t), h + objects t)
      | None \<Rightarrow> (None, h))"

definition eventNameFromFile :: "env \<Rightarrow> jsstring \<Rightarrow> jsstring" where
  \<comment> \<open>\<^verbatim>\<open>path.basename(filePath).replace(/\.json$/, "")\<close>\<close>
  "eventNameFromFile e filePath =
     (let b = basename e filePath
      in if 5 \<le> length b \<and> drop (length b - 5) b = lit ''.json''
         then take (length b - 5) b else b)"

fun codePoints :: "jsstring \<Rightarrow> jsstring list" where
  \<comment> \<open>what iterating a string yields: its code points, a surrogate pair as one\<close>
  "codePoints (c # d # cs) =
     (if 0xD800 \<le> c \<and> c \<le> 0xDBFF \<and> 0xDC00 \<le> d \<and> d \<le> 0xDFFF
      then [c, d] # codePoints cs else [c] # codePoints (d # cs))"
| "codePoints [c] = [[c]]"
| "codePoints [] = []"

definition ownerTeamsOf :: "env \<Rightarrow> jsstring \<Rightarrow> iterable" where
  \<comment> \<open>\<^verbatim>\<open>OWNERS[eventName] || []\<close>, as the loop over the teams will read it: an array by its
      elements and a string by its code points, each used as a property key; a function or
      object inherited from the prototype, and any other truthy value, cannot be iterated\<close>
  "ownerTeamsOf e path =
     (case OWNERS e (eventNameFromFile e path) of
        Some v \<Rightarrow>
          if truthy v then
            (case v of
               JArr a xs \<Rightarrow> Iterable (map toString xs)
             | JStr s \<Rightarrow> Iterable (codePoints s)
             | _ \<Rightarrow> NotIterable)
          else Iterable []
      | None \<Rightarrow>
          if eventNameFromFile e path \<in> set objectPrototypeNames then NotIterable
          else Iterable [])"

definition throwing ::
  "loop_state \<Rightarrow> error + 'a \<Rightarrow> (error \<times> (json \<times> jsstring) list) + 'a" where
  \<comment> \<open>an exception in the loop body, with what had been retrieved by then\<close>
  "throwing st m = (case m of Inl err \<Rightarrow> Inl (err, l_retrieved st) | Inr x \<Rightarrow> Inr x)"

definition processFile ::
  "env \<Rightarrow> policy \<Rightarrow> json \<Rightarrow> json \<Rightarrow> loop_state \<Rightarrow> jsstring
     \<Rightarrow> (error \<times> (json \<times> jsstring) list) + loop_state"
where
  \<comment> \<open>one iteration of \<^verbatim>\<open>for (const path of changed)\<close>\<close>
  "processFile e pol base head st path =
     (let ownerTeams = ownerTeamsOf e path;
          oldFile = tryGitShow e base path;
          newFile = tryGitShow e head path;
          st1 = st\<lparr> l_retrieved := l_retrieved st @ [(base, path), (head, path)] \<rparr>
      in if \<not> fst oldFile \<and> fst newFile then
           andThen (throwing st1 (sevForOwner pol (lit ''FILE_ADDED'') ownerTeams))
             (\<lambda>sev. Inr (st1\<lparr> l_reports := l_reports st1 @
                 [\<lparr> r_file = path,
                    r_summary = \<lparr> s_decision = lit ''PASS'', s_blocks = 0, s_warns = 0,
                                  s_passes = 1 \<rparr>,
                    r_changes = [\<lparr> c_severity = sev, c_kind = lit ''FILE_ADDED'', c_path = path,
                                    c_message = lit ''Schema file added: '' @ path \<rparr>] \<rparr>] \<rparr>))
         else if fst oldFile \<and> \<not> fst newFile then
           andThen (throwing st1 (sevForOwner pol (lit ''FILE_REMOVED'') ownerTeams))
             (\<lambda>sev. Inr (st1\<lparr> l_reports := l_reports st1 @
                 [\<lparr> r_file = path,
                    r_summary = \<lparr> s_decision = lit ''FAIL'', s_blocks = 1, s_warns = 0,
                                  s_passes = 0 \<rparr>,
                    r_changes = [\<lparr> c_severity = sev, c_kind = lit ''FILE_REMOVED'', c_path = path,
                                    c_message = lit ''Schema file removed: '' @ path \<rparr>] \<rparr>],
                 l_anyBlock := True \<rparr>))
         else
           (let oldParsed = safeJsonParse e (l_heap st1) (snd oldFile);
                newParsed = safeJsonParse e (snd oldParsed) (snd newFile);
                st2 = st1\<lparr> l_heap := snd newParsed \<rparr>
            in case (fst oldParsed, fst newParsed) of
                 (Some oldValue, Some newValue) \<Rightarrow>
                   andThen (throwing st2 (diff pol oldValue newValue ownerTeams))
                     (\<lambda>r. Inr (st2\<lparr> l_reports := l_reports st2 @
                                   [\<lparr> r_file = path, r_summary = fst r, r_changes = snd r \<rparr>],
                                 l_anyBlock := (if s_blocks (fst r) > 0 then True
                                                else l_anyBlock st2) \<rparr>))
               | (oldOk, newOk) \<Rightarrow>
                   andThen (throwing st2 (sevForOwner pol (lit ''INVALID_JSON'') ownerTeams))
                     (\<lambda>sev. Inr (st2\<lparr> l_reports := l_reports st2 @
                         [\<lparr> r_file = path,
                            r_summary = \<lparr> s_decision = lit ''FAIL'', s_blocks = 1, s_warns = 0,
                                          s_passes = 0 \<rparr>,
                            r_changes = [\<lparr> c_severity = sev, c_kind = lit ''INVALID_JSON'',
                                            c_path = path,
                                            c_message = lit ''Invalid JSON in ''
                                              @ (if oldOk = None then lit ''base'' else lit ''head'')
                                              @ lit '' version of '' @ path @ lit ''.'' \<rparr>] \<rparr>],
                         l_anyBlock := True \<rparr>))))"

definition usage :: outcome where
  \<comment> \<open>\<^verbatim>\<open>process.exit(2)\<close> after the usage line\<close>
  "usage = \<lparr> exitCode = 2, final = None, retrievals = [], uncaught = None \<rparr>"

definition died :: "error \<Rightarrow> (json \<times> jsstring) list \<Rightarrow> outcome" where
  \<comment> \<open>an uncaught exception: no report, exit code 1\<close>
  "died err retrieved = \<lparr> exitCode = 1, final = None, retrievals = retrieved, uncaught = Some err \<rparr>"

definition main :: "env \<Rightarrow> config option \<Rightarrow> args \<Rightarrow> jsstring list option \<Rightarrow> outcome" where
  "main e cfg a listing =
     (case (a_base a, a_head a) of
        (Some base, Some head) \<Rightarrow>
          if \<not> truthy base \<or> \<not> truthy head then usage
          else
            let pol = loadPolicy cfg;
                dir = (case a_dir a of Some d \<Rightarrow> if truthy d then d else JStr (lit ''schemas'')
                       | None \<Rightarrow> JStr (lit ''schemas''))
            in (case listing of
                  None \<Rightarrow> died ExecError []
                | Some changed \<Rightarrow>
                    if length changed = 0 then
                      \<lparr> exitCode = 0,
                        final = Some \<lparr> rr_base = base, rr_head = head, rr_dir = dir,
                                       rr_summary = \<lparr> s_decision = lit ''PASS'', s_blocks = 0,
                                                      s_warns = 0, s_passes = 0 \<rparr>,
                                       rr_reports = [] \<rparr>,
                        retrievals = [], uncaught = None \<rparr>
                    else
                      (case forEach (processFile e pol base head)
                              \<lparr> l_reports = [], l_anyBlock = False, l_retrieved = [],
                                l_heap = 0 \<rparr> changed of
                         Inl (err, retrieved) \<Rightarrow> died err retrieved
                       | Inr st \<Rightarrow>
                           let reports = l_reports st
                           in \<lparr> exitCode = (if l_anyBlock st then 1 else 0),
                                final = Some
                                  \<lparr> rr_base = base, rr_head = head, rr_dir = dir,
                                    rr_summary =
                                      \<lparr> s_decision = (if l_anyBlock st then lit ''FAIL''
                                                       else lit ''PASS''),
                                        s_blocks = foldl (\<lambda>n r. n + s_blocks (r_summary r)) 0 reports,
                                        s_warns = foldl (\<lambda>n r. n + s_warns (r_summary r)) 0 reports,
                                        s_passes = foldl (\<lambda>n r. n + s_passes (r_summary r)) 0 reports \<rparr>,
                                    rr_reports = reports \<rparr>,
                                retrievals = l_retrieved st, uncaught = None \<rparr>))
      | _ \<Rightarrow> usage)"

section \<open>Notions used in the statements\<close>

definition severities :: "jsstring set" where
  "severities = {lit ''pass'', lit ''warn'', lit ''block''}"

definition rank :: "jsstring \<Rightarrow> nat" where
  \<comment> \<open>the place of a severity in the order pass, warn, block\<close>
  "rank v = (if v = lit ''pass'' then 0 else if v = lit ''block'' then 2 else 1)"

definition effectiveDefault :: "config option \<Rightarrow> jsstring \<Rightarrow> jsstring" where
  \<comment> \<open>the configured default, else the built-in one, else warn\<close>
  "effectiveDefault cfg key =
     (case configured cfg key of
        Some v \<Rightarrow> v
      | None \<Rightarrow> (case DEFAULT_POLICY key of Some v \<Rightarrow> v | None \<Rightarrow> lit ''warn''))"

definition ownerOverrides :: "policy \<Rightarrow> jsstring \<Rightarrow> jsstring list \<Rightarrow> jsstring list" where
  \<comment> \<open>the overrides that exist for the key among the teams\<close>
  "ownerOverrides pol key teams =
     concat (map (\<lambda>team. case POLICY_OVERRIDES_BY_OWNER pol team of
                            Some teamPolicy \<Rightarrow> (case teamPolicy key of Some v \<Rightarrow> [v] | None \<Rightarrow> [])
                          | None \<Rightarrow> []) teams)"

definition keyEq :: "('a \<Rightarrow> 'k) \<Rightarrow> 'a \<Rightarrow> 'a \<Rightarrow> bool" where
  \<comment> \<open>an equality that compares keys\<close>
  "keyEq k x y = (k x = k y)"

definition exampleConfig :: config where
  \<comment> \<open>a configuration in which one team relaxes a rule whose built-in severity is warn\<close>
  "exampleConfig =
     \<lparr> cfg_default = Some Map.empty, cfg_flat = Map.empty,
       cfg_overrides =
         Some [lit ''team-payments'' \<mapsto> [lit ''FIELD_REMOVED_OPTIONAL'' \<mapsto> lit ''pass'']] \<rparr>"

text \<open>
  The nodes that the traversal reaches, after the spec: the root with the empty path and
  no required names, and each property of a reached node that has a properties object,
  with the path extended by the key and the required names made from that node's own
  required array.
\<close>

inductive visits :: "json \<Rightarrow> json \<Rightarrow> jsstring \<Rightarrow> jsstring list \<Rightarrow> bool"
  for schema :: json
where
  root: "visits schema schema [] []"
| child: "visits schema node path req \<Longrightarrow> truthy node \<Longrightarrow>
          isObject (getProp node (lit ''properties'')) = Some props \<Longrightarrow> (k, v) \<in> set props \<Longrightarrow>
          visits schema v (childPath path k) (childReq path (requiredOf node))"

definition exampleSchema :: json where
  \<comment> \<open>\<^verbatim>\<open>{type:"object", properties:{a:{type:"number"}}, required:["a"]}\<close>\<close>
  "exampleSchema =
     JObj 0 [(lit ''type'', JStr (lit ''object'')),
             (lit ''properties'', JObj 1 [(lit ''a'', JObj 2 [(lit ''type'', JStr (lit ''number''))])]),
             (lit ''required'', JArr 3 [JStr (lit ''a'')])]"

definition recorded :: "json \<Rightarrow> (jsstring \<times> field) list \<Rightarrow> bool" where
  \<comment> \<open>every entry of the map was stored for a reached node, under its path\<close>
  "recorded schema acc \<longleftrightarrow>
     (\<forall>p d. map_of acc p = Some d \<longrightarrow>
        p \<noteq> [] \<and> (\<exists>node req. visits schema node p req \<and> truthy node
                       \<and> d = descriptor node p (Set_has (=) req p)))"


definition validArgs :: "args \<Rightarrow> bool" where
  \<comment> \<open>both \<^verbatim>\<open>--base\<close> and \<^verbatim>\<open>--head\<close> are given and truthy\<close>
  "validArgs a \<longleftrightarrow>
     (case (a_base a, a_head a) of (Some base, Some head) \<Rightarrow> truthy base \<and> truthy head | _ \<Rightarrow> False)"

definition dirOf :: "args \<Rightarrow> json" where
  \<comment> \<open>\<^verbatim>\<open>args.dir || "schemas"\<close>\<close>
  "dirOf a = (case a_dir a of Some d \<Rightarrow> if truthy d then d else JStr (lit ''schemas'')
              | None \<Rightarrow> JStr (lit ''schemas''))"

definition initial :: loop_state where
  \<comment> \<open>the state before the first changed file\<close>
  "initial = \<lparr> l_reports = [], l_anyBlock = False, l_retrieved = [], l_heap = 0 \<rparr>"

text \<open>
  A run on five changed files: one added, one removed, one that does not parse, one that
  is absent at both revisions, and one that parses at both.
\<close>

definition exampleEnv :: env where
  "exampleEnv =
     \<lparr> gitShow = (\<lambda>ref path.
         if path = lit ''schemas/added.json'' then
           (if ref = JStr (lit ''HEAD'') then Some (lit ''{}'') else None)
         else if path = lit ''schemas/removed.json'' then
           (if ref = JStr (lit ''main'') then Some (lit ''{}'') else None)
         else if path = lit ''schemas/broken.json'' then Some (lit ''{'')
         else if path = lit ''schemas/kept.json'' then
           Some (lit ''{}'')
         else None),
       jsonParse = (\<lambda>text.
         if text = lit ''{}'' then Some (TObj [])
         else if text = lit ''null'' then Some TNull
         else None),
       basename = (\<lambda>p. rev (takeWhile (\<lambda>c. c \<noteq> 47) (rev p))),
       OWNERS = Map.empty \<rparr>"

definition exampleArgs :: args where
  "exampleArgs = \<lparr> a_base = Some (JStr (lit ''main'')), a_head = Some (JStr (lit ''HEAD'')),
                    a_dir = None \<rparr>"



text \<open>
  The two calls of \<^verbatim>\<open>safeJsonParse\<close> in one iteration: the base content is parsed on the
  heap of the state, the head content on the heap that the first call leaves.
\<close>

definition parsedOld :: "env \<Rightarrow> json \<Rightarrow> loop_state \<Rightarrow> jsstring \<Rightarrow> json option \<times> nat" where
  "parsedOld e base st path = safeJsonParse e (l_heap st) (gitShow e base path)"

definition parsedNew :: "env \<Rightarrow> json \<Rightarrow> json \<Rightarrow> loop_state \<Rightarrow> jsstring \<Rightarrow> json option \<times> nat" where
  "parsedNew e base head st path =
     safeJsonParse e (snd (parsedOld e base st path)) (gitShow e head path)"

text \<open>
  An environment in which every file is new at the head revision.
\<close>

definition addingEnv :: env where
  "addingEnv = exampleEnv\<lparr> gitShow := (\<lambda>ref path.
       if ref = JStr (lit ''HEAD'') then Some (lit ''{}'') else None) \<rparr>"

section \<open>Sets in insertion order\<close>

lemma sameValueZero_keyEq: "sameValueZero = keyEq ident"
  by (simp add: fun_eq_iff sameValueZero_def keyEq_def)

lemma eq_keyEq: "(=) = keyEq id"
  by (simp add: fun_eq_iff keyEq_def)

lemma Set_has_keyEq: "Set_has (keyEq k) s v \<longleftrightarrow> k v \<in> k ` set s"
  unfolding Set_has_def keyEq_def list_ex_iff image_iff by metis

lemma Set_new_snoc: "Set_new eq (xs @ [x]) = Set_add eq (Set_new eq xs) x"
  by (simp add: Set_new_def)

lemma Set_new_Nil: "Set_new eq [] = []"
  by (simp add: Set_new_def)


lemma Set_new_keys: "k ` set (Set_new (keyEq k) xs) = k ` set xs"
  by (induction xs rule: rev_induct)
     (auto simp: Set_new_Nil Set_new_snoc Set_add_def Set_has_keyEq)

lemma Set_new_distinct: "distinct (map k (Set_new (keyEq k) xs))"
  by (induction xs rule: rev_induct)
     (auto simp: Set_new_Nil Set_new_snoc Set_add_def Set_has_keyEq)

lemma Set_new_eq_set: "set (Set_new (=) xs) = set xs"
  using Set_new_keys[of id xs] by (simp add: eq_keyEq)

lemma Set_new_eq_distinct: "distinct (Set_new (=) xs)"
  using Set_new_distinct[of id xs] by (simp add: eq_keyEq)

lemma Set_new_map:
  "Set_new (keyEq k) (map f ys) = map f (Set_new (keyEq (\<lambda>y. k (f y))) ys)"
proof (induction ys rule: rev_induct)
  case Nil
  show ?case by (simp add: Set_new_Nil)
next
  case (snoc y ys)
  have "Set_new (keyEq k) (map f (ys @ [y])) = Set_add (keyEq k) (Set_new (keyEq k) (map f ys)) (f y)"
    by (simp add: Set_new_snoc)
  also have "\<dots> = map f (Set_add (keyEq (\<lambda>y. k (f y))) (Set_new (keyEq (\<lambda>y. k (f y))) ys) y)"
    by (simp add: snoc.IH Set_add_def Set_has_keyEq image_image)
  finally show ?case by (simp add: Set_new_snoc)
qed

section \<open>Lists of names\<close>

lemma ident_JStr [simp]: "ident v = JStr n \<longleftrightarrow> v = JStr n"
  by (cases v) auto

lemma keyEq_JStr: "keyEq JStr = (=)"
  by (simp add: fun_eq_iff keyEq_def)

lemma Set_new_JStr: "Set_new sameValueZero (map JStr ns) = map JStr (Set_new (=) ns)"
  by (simp add: sameValueZero_keyEq Set_new_map keyEq_JStr)

lemma Set_has_sameValueZero: "Set_has sameValueZero s v \<longleftrightarrow> ident v \<in> ident ` set s"
  by (simp add: sameValueZero_keyEq Set_has_keyEq)

lemma Set_has_JStr: "Set_has sameValueZero (map JStr ns) (JStr n) \<longleftrightarrow> n \<in> set ns"
  by (auto simp: Set_has_sameValueZero image_image)

lemma insort_key_JStr:
  "insort_key toString (JStr n) (map JStr ms) = map JStr (insort n ms)"
  by (induction ms) auto

lemma jsSort_JStr: "jsSort (map JStr ns) = map JStr (sort ns)"
  by (induction ns) (auto simp: jsSort_def insort_key_JStr)

lemma sort_distinct_eq:
  fixes xs :: "'a::linorder list"
  assumes "distinct xs"
  shows "sort xs = sorted_list_of_set (set xs)"
  using assms by (simp add: sorted_list_of_set_sort_remdups distinct_remdups_id)

lemma filter_map_JStr: "filter P (map JStr ns) = map JStr (filter (\<lambda>n. P (JStr n)) ns)"
  by (simp add: filter_map comp_def)






lemma ident_JStr': "JStr n = ident v \<longleftrightarrow> v = JStr n"
  by (cases v) auto

lemma join_JStr: "join (map JStr ns) sep = joinWith sep ns"
  by (simp add: join_def comp_def)

lemma Set_delete_JStr:
  "Set_delete sameValueZero (map JStr ns) (JStr n) = map JStr (filter (\<lambda>m. m \<noteq> n) ns)"
  by (simp add: Set_delete_def filter_map_JStr sameValueZero_def)

lemma sort_filter_Set_new:
  "sort (filter (\<lambda>m. m \<noteq> n) (Set_new (=) ns)) = sorted_list_of_set (set ns - {n})"
proof -
  have "distinct (filter (\<lambda>m. m \<noteq> n) (Set_new (=) ns))"
    by (simp add: Set_new_eq_distinct)
  from sort_distinct_eq[OF this] show ?thesis
    by (simp add: Set_new_eq_set set_diff_eq)
qed

lemma Set_new_svz_keys: "ident ` set (Set_new sameValueZero xs) = ident ` set xs"
  by (simp add: sameValueZero_keyEq Set_new_keys)

lemma pick_label:
  "(if length (map JStr names) = 1 then hd (map JStr names)
    else if length (map JStr names) \<noteq> 0 then JStr (join (map JStr names) sep)
    else JStr u)
   = (if names = [] then JStr u else JStr (joinWith sep names))"
proof (cases names)
  case Nil
  then show ?thesis by simp
next
  case (Cons n ms)
  then show ?thesis by (cases ms) (simp_all add: join_def comp_def)
qed

lemma normalizeType_names:
  "normalizeType (Some (JArr a (map JStr ns))) =
     (if set ns - {lit ''null''} = {} then JStr (lit ''unknown'')
      else JStr (joinWith (lit ''|'') (sorted_list_of_set (set ns - {lit ''null''}))),
      lit ''null'' \<in> set ns)"
proof -
  let ?names = "sorted_list_of_set (set ns - {lit ''null''})"
  have e: "?names = [] \<longleftrightarrow> set ns - {lit ''null''} = {}"
    by (simp add: sorted_list_of_set_eq_Nil_iff)
  have "normalizeType (Some (JArr a (map JStr ns))) =
     (if length (map JStr ?names) = 1 then hd (map JStr ?names)
      else if length (map JStr ?names) \<noteq> 0 then JStr (join (map JStr ?names) (lit ''|''))
      else JStr (lit ''unknown''), lit ''null'' \<in> set ns)"
    unfolding normalizeType_def
    by (simp only: Let_def Set_new_JStr Set_has_JStr Set_delete_JStr jsSort_JStr
        sort_filter_Set_new Set_new_eq_set option.case json.case)
  also have "\<dots> = (if ?names = [] then JStr (lit ''unknown'')
                      else JStr (joinWith (lit ''|'') ?names), lit ''null'' \<in> set ns)"
    by (simp only: pick_label)
  finally show ?thesis by (simp only: e)
qed

lemma normalizeType_nullable:
  "snd (normalizeType t) = (\<exists>a xs. t = Some (JArr a xs) \<and> JStr (lit ''null'') \<in> set xs)"
proof (cases t)
  case None
  then show ?thesis by (simp add: normalizeType_def)
next
  case (Some v)
  show ?thesis
  proof (cases v)
    case (JArr a xs)
    have "Set_has sameValueZero (Set_new sameValueZero xs) (JStr (lit ''null''))
            \<longleftrightarrow> ident (JStr (lit ''null'')) \<in> ident ` set xs"
      by (simp only: Set_has_sameValueZero Set_new_svz_keys)
    also have "\<dots> \<longleftrightarrow> JStr (lit ''null'') \<in> set xs"
      by (auto simp: image_iff ident_JStr' intro: bexI[where x = "JStr (lit ''null'')"])
    finally show ?thesis using Some JArr by (simp add: normalizeType_def Let_def)
  qed (simp_all add: Some normalizeType_def)
qed

section \<open>EnumComparator: the result lists\<close>



section \<open>FieldFlattener: type normalization\<close>

text \<open>
  C3. An array of names maps to the names other than "null", without duplicates, in
  ascending order and joined by a pipe (a single name joined is that name; none gives
  "unknown"), with nullable true iff "null" is among them. A string maps to itself, and an
  absent declaration, \<^verbatim>\<open>null\<close>, a boolean, a number or an object to "unknown", both with
  nullable false. In every case nullable is true iff the declaration is an array that
  contains "null".
\<close>

theorem normalizeType_cases:
  "normalizeType (Some (JArr a (map JStr ns))) =
     (if set ns - {lit ''null''} = {} then JStr (lit ''unknown'')
      else JStr (joinWith (lit ''|'') (sorted_list_of_set (set ns - {lit ''null''}))),
      lit ''null'' \<in> set ns)
   \<and> joinWith (lit ''|'') [n] = n
   \<and> normalizeType (Some (JStr s)) = (JStr s, False)
   \<and> normalizeType None = (JStr (lit ''unknown''), False)
   \<and> normalizeType (Some JNull) = (JStr (lit ''unknown''), False)
   \<and> normalizeType (Some (JBool b)) = (JStr (lit ''unknown''), False)
   \<and> normalizeType (Some (JNum i)) = (JStr (lit ''unknown''), False)
   \<and> normalizeType (Some (JObj a' kvs)) = (JStr (lit ''unknown''), False)
   \<and> snd (normalizeType t) = (\<exists>a xs. t = Some (JArr a xs) \<and> JStr (lit ''null'') \<in> set xs)"
proof -
  have o: "normalizeType (Some (JStr s)) = (JStr s, False)"
    "normalizeType None = (JStr (lit ''unknown''), False)"
    "normalizeType (Some JNull) = (JStr (lit ''unknown''), False)"
    "normalizeType (Some (JBool b)) = (JStr (lit ''unknown''), False)"
    "normalizeType (Some (JNum i)) = (JStr (lit ''unknown''), False)"
    "normalizeType (Some (JObj a' kvs)) = (JStr (lit ''unknown''), False)"
    by (simp_all add: normalizeType_def)
  have j: "joinWith (lit ''|'') [n] = n" by simp
  from normalizeType_names[of a ns] j o normalizeType_nullable[of t]
  show ?thesis by blast
qed

section \<open>FieldFlattener: what is recorded\<close>

lemma recorded_Nil: "recorded schema []"
  by (simp add: recorded_def)

lemma recorded_update:
  assumes "recorded schema acc" and "visits schema node path req" and "truthy node"
    and "path \<noteq> []"
  shows "recorded schema (AList.update path (descriptor node path (Set_has (=) req path)) acc)"
  using assms unfolding recorded_def update_conv' by (auto split: if_splits)

lemma walk_unfold:
  "walk node path requiredNames fields0 =
     (if \<not> truthy node then fields0
      else case isObject (getProp node (lit ''properties'')) of
             Some props \<Rightarrow>
               foldl (\<lambda>acc kv. walk (snd kv) (childPath path (fst kv))
                                  (childReq path (requiredOf node)) acc)
                 (if path \<noteq> [] then
                    AList.update path (descriptor node path (Set_has (=) requiredNames path)) fields0
                  else fields0) props
           | None \<Rightarrow>
               (if path \<noteq> [] then
                  AList.update path (descriptor node path (Set_has (=) requiredNames path)) fields0
                else fields0))"
  by (subst walk.simps) (simp add: Let_def)

lemma foldl_preserves:
  assumes "\<And>a x. x \<in> set xs \<Longrightarrow> P a \<Longrightarrow> P (f a x)" and "P a"
  shows "P (foldl f a xs)"
  using assms by (induction xs arbitrary: a) auto

lemma walk_recorded:
  "visits schema node path req \<Longrightarrow> recorded schema acc \<Longrightarrow> recorded schema (walk node path req acc)"
proof (induction node path req acc rule: walk.induct)
  case (1 node path requiredNames fields0)
  show ?case
  proof (cases "truthy node")
    case False
    with "1.prems" show ?thesis by (subst walk_unfold) simp
  next
    case True
    let ?f1 = "if path \<noteq> [] then
                 AList.update path (descriptor node path (Set_has (=) requiredNames path)) fields0
               else fields0"
    have r1: "recorded schema ?f1"
      using recorded_update[OF "1.prems"(2) "1.prems"(1) True] "1.prems"(2) by simp
    show ?thesis
    proof (cases "isObject (getProp node (lit ''properties''))")
      case None
      with True r1 show ?thesis by (subst walk_unfold) simp
    next
      case (Some props)
      have "recorded schema (foldl (\<lambda>acc kv. walk (snd kv) (childPath path (fst kv))
                                  (childReq path (requiredOf node)) acc) ?f1 props)"
      proof (rule foldl_preserves[where P = "recorded schema"])
        fix a z
        assume z: "z \<in> set props" and a: "recorded schema a"
        have "(fst z, snd z) \<in> set props" using z by simp
        from visits.child[OF "1.prems"(1) True Some this]
        have v: "visits schema (snd z) (childPath path (fst z)) (childReq path (requiredOf node))" .
        have nn: "\<not> \<not> truthy node" using True by simp
        from "1.IH"[OF nn refl refl Some z v a]
        show "recorded schema (walk (snd z) (childPath path (fst z)) (childReq path (requiredOf node)) a)" .
      qed (rule r1)
      with True Some show ?thesis by (subst walk_unfold) simp
    qed
  qed
qed

lemma flatten_recorded: "recorded schema (flatten schema)"
  unfolding flatten_def by (rule walk_recorded[OF visits.root recorded_Nil])

lemma Set_has_eq: "Set_has (=) s v \<longleftrightarrow> v \<in> set s"
  by (auto simp: Set_has_def list_ex_iff)

lemma set_childReq: "set (childReq path rs) = {childPath path n | n. JStr n \<in> set rs}"
proof (induction rs rule: rev_induct)
  case Nil
  show ?case by (simp add: childReq_def)
next
  case (snoc r rs)
  have "childReq path (rs @ [r]) =
          (case r of JStr n \<Rightarrow> Set_add (=) (childReq path rs) (childPath path n) | _ \<Rightarrow> childReq path rs)"
    unfolding childReq_def by simp
  with snoc show ?case
    by (cases r) (auto simp: Set_add_def Set_has_eq)
qed

lemma f_required_descriptor: "f_required (descriptor node p r) = r"
  by (simp add: descriptor_def Let_def)

lemma visits_parent:
  assumes "visits schema node p req" and "p \<noteq> []"
  shows "\<exists>parent ppath preq props k.
           visits schema parent ppath preq \<and> truthy parent
           \<and> isObject (getProp parent (lit ''properties'')) = Some props
           \<and> (k, node) \<in> set props \<and> p = childPath ppath k
           \<and> req = childReq ppath (requiredOf parent)"
  using assms by (cases rule: visits.cases) auto

lemma flatten_example:
  "flatten exampleSchema =
     [(lit ''a'', \<lparr> f_path = lit ''a'', f_type = JStr (lit ''number''), f_nullable = False,
                    f_required = True, f_enum = None \<rparr>)]"
  by code_simp

lemma flatten_root:
  "flatten schema =
     (if \<not> truthy schema then []
      else case isObject (getProp schema (lit ''properties'')) of
             Some props \<Rightarrow>
               foldl (\<lambda>acc kv. walk (snd kv) (fst kv) (childReq [] (requiredOf schema)) acc) [] props
           | None \<Rightarrow> [])"
  unfolding flatten_def by (subst walk_unfold) (simp add: childPath_def cong: option.case_cong)

lemma flatten_no_root: "[] \<notin> fst ` set (flatten schema)"
proof
  assume "[] \<in> fst ` set (flatten schema)"
  then obtain d where "map_of (flatten schema) [] = Some d"
    by (metis map_of_eq_None_iff not_None_eq)
  with flatten_recorded[of schema] show False
    unfolding recorded_def by blast
qed

lemma flatten_descriptor:
  assumes "map_of (flatten schema) p = Some d"
  shows "p \<noteq> [] \<and> (\<exists>parent ppath preq props k node.
             visits schema parent ppath preq \<and> truthy parent
             \<and> isObject (getProp parent (lit ''properties'')) = Some props \<and> (k, node) \<in> set props
             \<and> p = childPath ppath k \<and> truthy node
             \<and> d = descriptor node p (p \<in> set (childReq ppath (requiredOf parent)))
             \<and> (f_required d \<longleftrightarrow> (\<exists>n. JStr n \<in> set (requiredOf parent) \<and> p = childPath ppath n)))"
proof -
  from flatten_recorded[of schema] assms
  obtain node req where p: "p \<noteq> []" and v: "visits schema node p req" and t: "truthy node"
    and d: "d = descriptor node p (Set_has (=) req p)"
    unfolding recorded_def by blast
  from visits_parent[OF v p]
  obtain parent ppath preq props k where
    pv: "visits schema parent ppath preq" and pt: "truthy parent"
    and pp: "isObject (getProp parent (lit ''properties'')) = Some props"
    and k: "(k, node) \<in> set props" and pk: "p = childPath ppath k"
    and r: "req = childReq ppath (requiredOf parent)"
    by blast
  have d': "d = descriptor node p (p \<in> set (childReq ppath (requiredOf parent)))"
    using d r by (simp add: Set_has_eq)
  have "f_required d \<longleftrightarrow> p \<in> set (childReq ppath (requiredOf parent))"
    by (simp add: d' f_required_descriptor)
  also have "\<dots> \<longleftrightarrow> (\<exists>n. JStr n \<in> set (requiredOf parent) \<and> p = childPath ppath n)"
    by (auto simp: set_childReq)
  finally have q: "f_required d \<longleftrightarrow> (\<exists>n. JStr n \<in> set (requiredOf parent) \<and> p = childPath ppath n)" .
  from p pv pt pp k pk t d' q show ?thesis by blast
qed

text \<open>
  C8. The example schema flattens to the one descriptor at path "a", of type "number" and
  required. The root is traversed and never recorded: no entry has the empty path, and the
  map is what walking the root's properties, each under its own key, builds from the empty
  map. Every recorded descriptor was stored for a property of a reached node, under the
  parent's path extended by the key, and it is required iff that path is the parent's path
  extended by a name of the parent's own required array.
\<close>

theorem flatten_required_from_parent:
  "flatten exampleSchema =
     [(lit ''a'', \<lparr> f_path = lit ''a'', f_type = JStr (lit ''number''), f_nullable = False,
                    f_required = True, f_enum = None \<rparr>)]
   \<and> [] \<notin> fst ` set (flatten schema)
   \<and> flatten schema =
       (if \<not> truthy schema then []
        else case isObject (getProp schema (lit ''properties'')) of
               Some props \<Rightarrow>
                 foldl (\<lambda>acc kv. walk (snd kv) (fst kv) (childReq [] (requiredOf schema)) acc) [] props
             | None \<Rightarrow> [])
   \<and> (map_of (flatten schema) p = Some d \<longrightarrow>
        p \<noteq> [] \<and> (\<exists>parent ppath preq props k node.
             visits schema parent ppath preq \<and> truthy parent
             \<and> isObject (getProp parent (lit ''properties'')) = Some props \<and> (k, node) \<in> set props
             \<and> p = childPath ppath k \<and> truthy node
             \<and> d = descriptor node p (p \<in> set (childReq ppath (requiredOf parent)))
             \<and> (f_required d \<longleftrightarrow> (\<exists>n. JStr n \<in> set (requiredOf parent) \<and> p = childPath ppath n))))"
  using flatten_example flatten_no_root[of schema] flatten_root[of schema]
    flatten_descriptor[of schema p d]
  by blast

theorem flatten_required_from_parent_witness:
  "map_of (flatten exampleSchema) (lit ''a'') =
     Some \<lparr> f_path = lit ''a'', f_type = JStr (lit ''number''), f_nullable = False,
            f_required = True, f_enum = None \<rparr>
   \<and> (\<exists>parent ppath preq k n.
         visits exampleSchema parent ppath preq \<and> lit ''a'' = childPath ppath k
         \<and> JStr n \<in> set (requiredOf parent) \<and> lit ''a'' = childPath ppath n)"
proof -
  let ?d = "\<lparr> f_path = lit ''a'', f_type = JStr (lit ''number''), f_nullable = False,
               f_required = True, f_enum = None \<rparr>"
  have h: "map_of (flatten exampleSchema) (lit ''a'') = Some ?d"
    by (simp add: flatten_example)
  note t = flatten_required_from_parent[of exampleSchema "lit ''a''" ?d]
  from t[THEN conjunct2, THEN conjunct2, THEN conjunct2, THEN mp, OF h]
  obtain parent ppath preq k where v: "visits exampleSchema parent ppath preq"
    and pk: "lit ''a'' = childPath ppath k"
    and q: "f_required ?d \<longleftrightarrow> (\<exists>n. JStr n \<in> set (requiredOf parent) \<and> lit ''a'' = childPath ppath n)"
    by blast
  from q obtain n where "JStr n \<in> set (requiredOf parent)" and "lit ''a'' = childPath ppath n"
    by auto
  with h v pk show ?thesis by blast
qed

section \<open>The severity order\<close>

lemma rank_values:
  "rank (lit ''pass'') = 0" "rank (lit ''warn'') = 1" "rank (lit ''block'') = 2"
  by (simp_all add: rank_def lit_def)

lemma severities_nonempty: "v \<in> severities \<Longrightarrow> v \<noteq> []"
  by (auto simp: severities_def lit_def)

lemma rank_inj: "a \<in> severities \<Longrightarrow> b \<in> severities \<Longrightarrow> rank a = rank b \<Longrightarrow> a = b"
  by (auto simp: severities_def rank_values)

lemma ran_map_of: "map_of kvs k = Some v \<Longrightarrow> v \<in> snd ` set kvs"
  by (metis image_eqI map_of_SomeD snd_conv)

lemma DEFAULT_POLICY_severities: "DEFAULT_POLICY k = Some v \<Longrightarrow> v \<in> severities"
  unfolding DEFAULT_POLICY_def by (drule ran_map_of) (auto simp: severities_def)

lemma rankOf_values:
  "rankOf (Str (lit ''pass'')) = Inl 0" "rankOf (Str (lit ''warn'')) = Inl 1"
  "rankOf (Str (lit ''block'')) = Inl 2"
  by (simp_all add: rankOf_def SEV_RANK_def lit_def)

lemma rankOf_severity: "v \<in> severities \<Longrightarrow> rankOf (Str v) = Inl (rank v)"
  by (auto simp: severities_def rankOf_values rank_values)

lemma maxSev_severities:
  assumes "a \<in> severities" and "b \<in> severities"
  shows "maxSev (Str a) (Str b) = Str a \<and> rank b \<le> rank a
         \<or> maxSev (Str a) (Str b) = Str b \<and> rank a \<le> rank b"
  by (auto simp: maxSev_def rankOf_severity[OF assms(1)] rankOf_severity[OF assms(2)])

lemma member_own: "key \<notin> set objectPrototypeNames \<Longrightarrow> member obj key = map_option Str (obj key)"
  by (simp add: member_def split: option.splits)

lemma overrideOf_own:
  "key \<notin> set objectPrototypeNames \<Longrightarrow>
   overrideOf pol team key =
     (case POLICY_OVERRIDES_BY_OWNER pol team of
        Some teamPolicy \<Rightarrow> map_option Str (teamPolicy key)
      | None \<Rightarrow> None)"
  by (simp add: overrideOf_def member_own split: option.splits)

lemma start_value:
  assumes "key \<notin> set objectPrototypeNames"
    and "case configured cfg key of Some v \<Rightarrow> v \<in> severities | None \<Rightarrow> True"
  shows "(case member (POLICY_DEFAULT (loadPolicy cfg)) key of
            Some v \<Rightarrow> if truthyVal v then v else Str (lit ''warn'')
          | None \<Rightarrow> Str (lit ''warn'')) = Str (effectiveDefault cfg key)
         \<and> effectiveDefault cfg key \<in> severities"
proof (cases "configured cfg key")
  case (Some v)
  with assms(2) have "v \<in> severities" by simp
  with Some show ?thesis
    by (simp add: member_own[OF assms(1)] loadPolicy_def effectiveDefault_def severities_nonempty)
next
  case None
  show ?thesis
  proof (cases "DEFAULT_POLICY key")
    case N: None
    with None show ?thesis
      by (simp add: member_own[OF assms(1)] loadPolicy_def effectiveDefault_def map_add_def
          severities_def)
  next
    case (Some v)
    with None DEFAULT_POLICY_severities[OF Some] show ?thesis
      by (simp add: member_own[OF assms(1)] loadPolicy_def effectiveDefault_def map_add_def
          severities_nonempty)
  qed
qed

lemma fold_overrides:
  assumes "key \<notin> set objectPrototypeNames"
    and "s \<in> severities" and "set (ownerOverrides pol key teams) \<subseteq> severities"
  shows "\<exists>r. foldl (applyOverride pol key) (Str s) teams = Str r
             \<and> r \<in> set (s # ownerOverrides pol key teams)
             \<and> (\<forall>v \<in> set (s # ownerOverrides pol key teams). rank v \<le> rank r)"
  using assms(2,3)
proof (induction teams arbitrary: s)
  case Nil
  then show ?case by (simp add: ownerOverrides_def)
next
  case (Cons t ts)
  let ?ov = "case POLICY_OVERRIDES_BY_OWNER pol t of
               Some teamPolicy \<Rightarrow> (case teamPolicy key of Some v \<Rightarrow> [v] | None \<Rightarrow> [])
             | None \<Rightarrow> []"
  have split: "ownerOverrides pol key (t # ts) = ?ov @ ownerOverrides pol key ts"
    by (simp add: ownerOverrides_def)
  have tl: "set (ownerOverrides pol key ts) \<subseteq> severities"
    using Cons.prems(2) split by auto
  have step: "\<exists>s'. applyOverride pol key (Str s) t = Str s' \<and> s' \<in> set (s # ?ov)
                 \<and> (\<forall>v \<in> set (s # ?ov). rank v \<le> rank s')"
  proof (cases "POLICY_OVERRIDES_BY_OWNER pol t")
    case None
    then show ?thesis by (simp add: applyOverride_def overrideOf_own[OF assms(1)])
  next
    case (Some tp)
    show ?thesis
    proof (cases "tp key")
      case None
      with Some show ?thesis by (simp add: applyOverride_def overrideOf_own[OF assms(1)])
    next
      case v: (Some v)
      with Some have "v \<in> set (ownerOverrides pol key (t # ts))"
        by (simp add: split)
      with Cons.prems(2) have vs: "v \<in> severities" by blast
      with Some v maxSev_severities[OF Cons.prems(1) vs] show ?thesis
        by (auto simp: applyOverride_def overrideOf_own[OF assms(1)] severities_nonempty)
    qed
  qed
  then obtain s' where a: "applyOverride pol key (Str s) t = Str s'"
    and m: "s' \<in> set (s # ?ov)" and u: "\<forall>v \<in> set (s # ?ov). rank v \<le> rank s'"
    by blast
  have "set (s # ?ov) \<subseteq> severities" using Cons.prems split by auto
  with m have s': "s' \<in> severities" by blast
  from Cons.IH[OF s' tl] obtain r
    where f: "foldl (applyOverride pol key) (Str s') ts = Str r"
      and rm: "r \<in> set (s' # ownerOverrides pol key ts)"
      and ru: "\<forall>v \<in> set (s' # ownerOverrides pol key ts). rank v \<le> rank r"
    by blast
  have 1: "foldl (applyOverride pol key) (Str s) (t # ts) = Str r" by (simp add: a f)
  have 2: "r \<in> set (s # ownerOverrides pol key (t # ts))"
    using rm m unfolding split by auto
  have 3: "\<forall>v \<in> set (s # ownerOverrides pol key (t # ts)). rank v \<le> rank r"
    using ru u unfolding split by (auto intro: order_trans)
  from 1 2 3 show ?case by blast
qed

lemma set_ownerOverrides:
  "set (ownerOverrides pol key teams) =
     {v. \<exists>team \<in> set teams. \<exists>tp. POLICY_OVERRIDES_BY_OWNER pol team = Some tp \<and> tp key = Some v}"
proof -
  have "\<And>team v. v \<in> set (case POLICY_OVERRIDES_BY_OWNER pol team of
               Some teamPolicy \<Rightarrow> (case teamPolicy key of Some v \<Rightarrow> [v] | None \<Rightarrow> [])
             | None \<Rightarrow> [])
         \<longleftrightarrow> (\<exists>tp. POLICY_OVERRIDES_BY_OWNER pol team = Some tp \<and> tp key = Some v)"
  proof -
    fix team v
    show "v \<in> set (case POLICY_OVERRIDES_BY_OWNER pol team of
               Some teamPolicy \<Rightarrow> (case teamPolicy key of Some v \<Rightarrow> [v] | None \<Rightarrow> [])
             | None \<Rightarrow> [])
         \<longleftrightarrow> (\<exists>tp. POLICY_OVERRIDES_BY_OWNER pol team = Some tp \<and> tp key = Some v)"
    proof (cases "POLICY_OVERRIDES_BY_OWNER pol team")
      case None
      then show ?thesis by simp
    next
      case (Some tp)
      then show ?thesis by (cases "tp key") auto
    qed
  qed
  then show ?thesis
    unfolding ownerOverrides_def by (simp add: set_eq_iff)
qed

lemma example_effectiveDefault:
  "effectiveDefault (Some exampleConfig) (lit ''FIELD_REMOVED_OPTIONAL'') = lit ''warn''"
  by (simp add: effectiveDefault_def configured_def exampleConfig_def DEFAULT_POLICY_def lit_def)

lemma example_ownerOverrides:
  "ownerOverrides (loadPolicy (Some exampleConfig)) (lit ''FIELD_REMOVED_OPTIONAL'')
     [lit ''team-payments''] = [lit ''pass'']"
  by (simp add: ownerOverrides_def loadPolicy_def exampleConfig_def)

section \<open>PolicyResolver: strictest wins\<close>

text \<open>
  C1. For a key that \<^verbatim>\<open>Object.prototype\<close> does not define and a list of owner teams:
  where the default configured for the key (if any) and the overrides that the owner
  teams have for the key are severities, \<^const>\<open>sevForOwner\<close> returns the maximum, in the
  order pass, warn, block, of the effective default (the configured default, else the
  built-in one, else warn) and of those overrides: the result is one of them and none of
  them ranks above it. The result depends on the teams as a set only, not on their order.
\<close>

theorem sevForOwner_strictest:
  assumes "key \<notin> set objectPrototypeNames"
    and "case configured cfg key of Some v \<Rightarrow> v \<in> severities | None \<Rightarrow> True"
    and "set (ownerOverrides (loadPolicy cfg) key teams) \<subseteq> severities"
  shows "\<exists>r. sevForOwner (loadPolicy cfg) key (Iterable teams) = Inr (Str r)
           \<and> r \<in> set (effectiveDefault cfg key # ownerOverrides (loadPolicy cfg) key teams)
           \<and> (\<forall>v \<in> set (effectiveDefault cfg key # ownerOverrides (loadPolicy cfg) key teams).
                 rank v \<le> rank r)
           \<and> rank (lit ''pass'') < rank (lit ''warn'') \<and> rank (lit ''warn'') < rank (lit ''block'')
           \<and> (\<forall>teams'. set teams' = set teams \<longrightarrow>
                 sevForOwner (loadPolicy cfg) key (Iterable teams') = Inr (Str r))"
proof -
  let ?pol = "loadPolicy cfg" and ?d = "effectiveDefault cfg key"
  from start_value[OF assms(1,2)]
  have sv: "\<And>ts. sevForOwner ?pol key (Iterable ts) = Inr (foldl (applyOverride ?pol key) (Str ?d) ts)"
    and d: "?d \<in> severities"
    by (simp_all add: sevForOwner_def)
  from fold_overrides[OF assms(1) d assms(3)] obtain r
    where f: "foldl (applyOverride ?pol key) (Str ?d) teams = Str r"
      and m: "r \<in> set (?d # ownerOverrides ?pol key teams)"
      and u: "\<forall>v \<in> set (?d # ownerOverrides ?pol key teams). rank v \<le> rank r"
    by blast
  have sub: "set (?d # ownerOverrides ?pol key teams) \<subseteq> severities"
    using d assms(3) by simp
  have rs: "r \<in> severities" using m sub by blast
  have o: "sevForOwner ?pol key (Iterable teams') = Inr (Str r)" if "set teams' = set teams" for teams'
  proof -
    have e: "set (ownerOverrides ?pol key teams') = set (ownerOverrides ?pol key teams)"
      by (simp add: set_ownerOverrides that)
    with assms(3) have "set (ownerOverrides ?pol key teams') \<subseteq> severities" by simp
    from fold_overrides[OF assms(1) d this] obtain r'
      where f': "foldl (applyOverride ?pol key) (Str ?d) teams' = Str r'"
        and m': "r' \<in> set (?d # ownerOverrides ?pol key teams')"
        and u': "\<forall>v \<in> set (?d # ownerOverrides ?pol key teams'). rank v \<le> rank r'"
      by blast
    have se: "set (?d # ownerOverrides ?pol key teams') = set (?d # ownerOverrides ?pol key teams)"
      using e by simp
    from m se have "r \<in> set (?d # ownerOverrides ?pol key teams')" by blast
    with u' have 1: "rank r \<le> rank r'" by blast
    from m' se have m2: "r' \<in> set (?d # ownerOverrides ?pol key teams)" by blast
    with u have 2: "rank r' \<le> rank r" by blast
    have "r' \<in> severities" using m2 sub by blast
    from rank_inj[OF this rs] 1 2 have "r' = r" by simp
    with f' show ?thesis by (simp add: sv)
  qed
  have k: "rank (lit ''pass'') < rank (lit ''warn'') \<and> rank (lit ''warn'') < rank (lit ''block'')"
    by (simp add: rank_values)
  have s: "sevForOwner ?pol key (Iterable teams) = Inr (Str r)" by (simp add: sv f)
  from s m u k o show ?thesis by blast
qed

text \<open>
  The built-in default of \<^verbatim>\<open>FIELD_REMOVED_OPTIONAL\<close> is warn; an owner override of pass
  leaves the result at warn.
\<close>

theorem sevForOwner_strictest_witness:
  "lit ''FIELD_REMOVED_OPTIONAL'' \<notin> set objectPrototypeNames
   \<and> (case configured (Some exampleConfig) (lit ''FIELD_REMOVED_OPTIONAL'') of
      Some v \<Rightarrow> v \<in> severities | None \<Rightarrow> True)
   \<and> set (ownerOverrides (loadPolicy (Some exampleConfig)) (lit ''FIELD_REMOVED_OPTIONAL'')
            [lit ''team-payments'']) \<subseteq> severities
   \<and> sevForOwner (loadPolicy (Some exampleConfig)) (lit ''FIELD_REMOVED_OPTIONAL'')
        (Iterable [lit ''team-payments'']) = Inr (Str (lit ''warn''))"
proof -
  let ?S = "sevForOwner (loadPolicy (Some exampleConfig)) (lit ''FIELD_REMOVED_OPTIONAL'')
             (Iterable [lit ''team-payments''])"
  have h0: "lit ''FIELD_REMOVED_OPTIONAL'' \<notin> set objectPrototypeNames"
    by (simp add: objectPrototypeNames_def lit_def)
  have h1: "case configured (Some exampleConfig) (lit ''FIELD_REMOVED_OPTIONAL'') of
              Some v \<Rightarrow> v \<in> severities | None \<Rightarrow> True"
    by (simp add: configured_def exampleConfig_def)
  have h2: "set (ownerOverrides (loadPolicy (Some exampleConfig)) (lit ''FIELD_REMOVED_OPTIONAL'')
            [lit ''team-payments'']) \<subseteq> severities"
    by (simp add: example_ownerOverrides severities_def)
  from sevForOwner_strictest[OF h0 h1 h2] obtain r where s: "?S = Inr (Str r)"
    and m: "r \<in> set (effectiveDefault (Some exampleConfig) (lit ''FIELD_REMOVED_OPTIONAL'')
              # ownerOverrides (loadPolicy (Some exampleConfig)) (lit ''FIELD_REMOVED_OPTIONAL'')
                  [lit ''team-payments''])"
    and u: "\<forall>v \<in> set (effectiveDefault (Some exampleConfig) (lit ''FIELD_REMOVED_OPTIONAL'')
              # ownerOverrides (loadPolicy (Some exampleConfig)) (lit ''FIELD_REMOVED_OPTIONAL'')
                  [lit ''team-payments'']). rank v \<le> rank r"
    by blast
  from m have m': "r \<in> set [lit ''warn'', lit ''pass'']"
    by (simp only: example_effectiveDefault example_ownerOverrides)
  from u have "\<forall>v \<in> set [lit ''warn'', lit ''pass'']. rank v \<le> rank r"
    by (simp only: example_effectiveDefault example_ownerOverrides)
  then have "rank (lit ''warn'') \<le> rank r" by simp
  with m' have "r = lit ''warn''" by (auto simp: rank_values)
  with s h0 h1 h2 show ?thesis by blast
qed

text \<open>
  A key that \<^verbatim>\<open>Object.prototype\<close> defines reads the inherited member where the policy
  has no own entry: at \<^verbatim>\<open>constructor\<close>, with nothing configured, the result is the
  function \<^verbatim>\<open>Object\<close> and not a severity.
\<close>

lemma sevForOwner_inherited:
  "sevForOwner (loadPolicy None) (lit ''constructor'') (Iterable []) = Inr (Member (lit ''constructor''))"
  by (simp add: sevForOwner_def member_def loadPolicy_def configured_def DEFAULT_POLICY_def
      objectPrototypeNames_def lit_def)

section \<open>SchemaDiffer: order and idempotence\<close>





lemma enumDiff_same: "enumDiff e e = ([], [])"
proof -
  have "filter (\<lambda>v. \<not> Set_has sameValueZero s v) s = []" for s
    by (auto simp: Set_has_sameValueZero filter_empty_conv)
  then show ?thesis by (simp add: enumDiff_def Let_def jsSort_def)
qed

lemma changesAt_cli_same: "changesAt_cli A A p = []"
  by (simp add: changesAt_cli_def enumDiff_same sameValueZero_def split: option.splits)

lemma concat_all_Nil: "(\<And>p. f p = []) \<Longrightarrow> concat (map f ps) = []"
  by (induction ps) auto














lemma forEach_constant:
  assumes "\<And>x. body s x = Inr s"
  shows "forEach body s xs = Inr s"
  using assms by (induction xs) simp_all


lemma changesAt_same: "changesAt pol ownerTeams A A cs p = Inr cs"
  by (cases "map_of A p")
     (simp_all add: changesAt_def andThen_def enumDiff_same sameValueZero_def)

lemma summarize_Nil:
  "summarize [] = \<lparr> s_decision = lit ''PASS'', s_blocks = 0, s_warns = 0, s_passes = 0 \<rparr>"
  by (simp add: summarize_def)

text \<open>
  The two demo changes of the README: the type of \<^verbatim>\<open>total_amount\<close> goes from number to
  string, which the policy-aware script blocks with the documented line, and
  \<^verbatim>\<open>payment_method\<close> leaves the required array, of which \<^verbatim>\<open>cli/eventdiff.mjs\<close> warns.
  With owner teams that cannot be iterated, the first change found throws.
\<close>

lemma scenario_type_changed:
  "diff (loadPolicy None)
     (JObj 0 [(lit ''type'', JStr (lit ''object'')),
              (lit ''properties'',
               JObj 1 [(lit ''total_amount'', JObj 2 [(lit ''type'', JStr (lit ''number''))])])])
     (JObj 3 [(lit ''type'', JStr (lit ''object'')),
              (lit ''properties'',
               JObj 4 [(lit ''total_amount'', JObj 5 [(lit ''type'', JStr (lit ''string''))])])])
     (Iterable []) =
   Inr (\<lparr> s_decision = lit ''FAIL'', s_blocks = 1, s_warns = 0, s_passes = 0 \<rparr>,
    [\<lparr> c_severity = Str (lit ''block''), c_kind = lit ''TYPE_CHANGED'',
        c_path = lit ''total_amount'',
        c_message = lit ''Type changed '' @ [39] @ lit ''total_amount'' @ [39]
                      @ lit '': number '' @ [0x2192] @ lit '' string'' \<rparr>])"
  by code_simp

lemma scenario_required_dropped:
  "diff_cli
     (JObj 0 [(lit ''properties'',
               JObj 1 [(lit ''payment_method'', JObj 2 [(lit ''type'', JStr (lit ''string''))])]),
              (lit ''required'', JArr 3 [JStr (lit ''payment_method'')])])
     (JObj 4 [(lit ''properties'',
               JObj 5 [(lit ''payment_method'', JObj 6 [(lit ''type'', JStr (lit ''string''))])]),
              (lit ''required'', JArr 7 [])]) =
   (\<lparr> s_decision = lit ''PASS'', s_blocks = 0, s_warns = 1, s_passes = 0 \<rparr>,
    [\<lparr> c_severity = Str (lit ''warn''), c_kind = lit ''REQUIRED_CHANGED'',
        c_path = lit ''payment_method'',
        c_message = lit ''Required '' @ [0x2192] @ lit '' optional: '' @ [39]
                      @ lit ''payment_method'' @ [39] @ lit ''.'' \<rparr>])"
  by code_simp

lemma scenario_not_iterable:
  "diff (loadPolicy None)
     (JObj 0 [(lit ''properties'', JObj 1 [(lit ''id'', JObj 2 [])])])
     (JObj 3 [])
     NotIterable = Inl TypeError"
  by code_simp


text \<open>
  C7. Diffing a schema against itself, with any policy and any owner teams, gives no change
  and the summary PASS with all counts zero, in both scripts.
\<close>

theorem diff_same_snapshot:
  "diff pol S S ownerTeams =
     Inr (\<lparr> s_decision = lit ''PASS'', s_blocks = 0, s_warns = 0, s_passes = 0 \<rparr>, [])
   \<and> diff_cli S S =
     (\<lparr> s_decision = lit ''PASS'', s_blocks = 0, s_warns = 0, s_passes = 0 \<rparr>, [])"
proof -
  have "forEach (changesAt pol ownerTeams (flatten S) (flatten S)) []
          (diffPaths (flatten S) (flatten S)) = Inr []"
    by (rule forEach_constant) (rule changesAt_same)
  then show ?thesis
    by (simp add: diff_def diff_cli_def Let_def concat_all_Nil changesAt_cli_same summarize_Nil)
qed

section \<open>RunAggregator: the loop over the changed files\<close>


lemma tryGitShow_fst: "fst (tryGitShow e ref path) \<longleftrightarrow> gitShow e ref path \<noteq> None"
  by (simp add: tryGitShow_def split: option.splits)

lemma tryGitShow_snd: "snd (tryGitShow e ref path) = gitShow e ref path"
  by (simp add: tryGitShow_def split: option.splits)




lemma processFile_diff:
  assumes "gitShow e base path = None \<longleftrightarrow> gitShow e head path = None"
    and "fst (parsedOld e base st path) = Some oldValue"
    and "fst (parsedNew e base head st path) = Some newValue"
  shows "processFile e pol base head st path =
           andThen
             (throwing (st\<lparr> l_retrieved := l_retrieved st @ [(base, path), (head, path)],
                           l_heap := snd (parsedNew e base head st path) \<rparr>)
                (diff pol oldValue newValue (ownerTeamsOf e path)))
             (\<lambda>r. Inr (st\<lparr> l_retrieved := l_retrieved st @ [(base, path), (head, path)],
                 l_heap := snd (parsedNew e base head st path),
                 l_reports := l_reports st @
                   [\<lparr> r_file = path, r_summary = fst r, r_changes = snd r \<rparr>],
                 l_anyBlock := (if s_blocks (fst r) > 0 then True else l_anyBlock st) \<rparr>))"
  using assms
  by (auto simp: processFile_def Let_def tryGitShow_fst tryGitShow_snd parsedOld_def
      parsedNew_def split: option.splits cong: if_cong)



















lemma main_empty:
  assumes "a_base a = Some base" "a_head a = Some head" "truthy base" "truthy head"
  shows "main e cfg a (Some []) =
     \<lparr> exitCode = 0,
       final = Some \<lparr> rr_base = base, rr_head = head, rr_dir = dirOf a,
                      rr_summary = \<lparr> s_decision = lit ''PASS'', s_blocks = 0,
                                     s_warns = 0, s_passes = 0 \<rparr>,
                      rr_reports = [] \<rparr>,
       retrievals = [], uncaught = None \<rparr>"
  using assms by (simp add: main_def dirOf_def Let_def)









lemma flatten_JNull: "flatten JNull = []"
  unfolding flatten_def by (subst walk_unfold) simp

lemma diff_JNull:
  "diff pol JNull JNull ownerTeams =
     Inr (\<lparr> s_decision = lit ''PASS'', s_blocks = 0, s_warns = 0, s_passes = 0 \<rparr>, [])"
  by (simp add: diff_def flatten_JNull diffPaths_def Set_new_Nil summarize_def)






text \<open>
  Two runs that end without a report: a changed file named \<^verbatim>\<open>constructor.json\<close>, whose
  owner teams are read from \<^verbatim>\<open>Object.prototype\<close>, stops the run at the second of three
  added files; and so does a listing of the changed files that fails.
\<close>

lemma inherited_owner_stops_run:
  "main addingEnv None exampleArgs
     (Some [lit ''schemas/kept.json'', lit ''schemas/constructor.json'',
            lit ''schemas/added.json'']) =
   \<lparr> exitCode = 1, final = None,
     retrievals = [(JStr (lit ''main''), lit ''schemas/kept.json''),
                   (JStr (lit ''HEAD''), lit ''schemas/kept.json''),
                   (JStr (lit ''main''), lit ''schemas/constructor.json''),
                   (JStr (lit ''HEAD''), lit ''schemas/constructor.json'')],
     uncaught = Some TypeError \<rparr>"
  by code_simp

lemma failed_listing_stops_run:
  "main exampleEnv None exampleArgs None =
   \<lparr> exitCode = 1, final = None, retrievals = [], uncaught = Some ExecError \<rparr>"
  by code_simp



text \<open>
  C9. With valid arguments and an empty list of changed files, the run exits with code 0,
  retrieves nothing, and reports the decision PASS, all counts zero and no file report.
\<close>

theorem empty_changed_list:
  assumes "validArgs a"
  shows "exitCode (main e cfg a (Some [])) = 0
         \<and> retrievals (main e cfg a (Some [])) = []
         \<and> map_option rr_summary (final (main e cfg a (Some []))) =
             Some \<lparr> s_decision = lit ''PASS'', s_blocks = 0, s_warns = 0, s_passes = 0 \<rparr>
         \<and> map_option rr_reports (final (main e cfg a (Some []))) = Some []
         \<and> uncaught (main e cfg a (Some [])) = None"
proof -
  from assms obtain base head where b: "a_base a = Some base" "a_head a = Some head"
    "truthy base" "truthy head"
    by (auto simp: validArgs_def split: option.splits)
  show ?thesis by (simp add: main_empty[OF b])
qed

theorem empty_changed_list_witness:
  "validArgs exampleArgs
   \<and> exitCode (main exampleEnv None exampleArgs (Some [])) = 0
   \<and> retrievals (main exampleEnv None exampleArgs (Some [])) = []
   \<and> map_option rr_summary (final (main exampleEnv None exampleArgs (Some []))) =
       Some \<lparr> s_decision = lit ''PASS'', s_blocks = 0, s_warns = 0, s_passes = 0 \<rparr>
   \<and> map_option rr_reports (final (main exampleEnv None exampleArgs (Some []))) = Some []"
proof -
  have v: "validArgs exampleArgs"
    by (simp add: validArgs_def exampleArgs_def lit_def)
  from empty_changed_list[OF v, of exampleEnv None] v show ?thesis by simp
qed

text \<open>
  C10. Where \<^verbatim>\<open>JSON.parse("null")\<close> is \<^verbatim>\<open>null\<close>: for a file absent at both revisions both
  retrievals fail, parsing the \<^verbatim>\<open>null\<close> content succeeds with the value \<^verbatim>\<open>null\<close> and
  allocates nothing, the differ finds no change between \<^verbatim>\<open>null\<close> and \<^verbatim>\<open>null\<close> whatever
  the owner teams are, and the iteration appends the report with no change, all counts
  zero and decision PASS, leaving the block flag as it was.
\<close>

theorem absent_at_both:
  assumes "gitShow e base path = None" and "gitShow e head path = None"
    and "jsonParse e (lit ''null'') = Some TNull"
  shows "tryGitShow e base path = (False, None)
         \<and> tryGitShow e head path = (False, None)
         \<and> safeJsonParse e h None = (Some JNull, h)
         \<and> diff pol JNull JNull (ownerTeamsOf e path) =
             Inr (\<lparr> s_decision = lit ''PASS'', s_blocks = 0, s_warns = 0, s_passes = 0 \<rparr>, [])
         \<and> processFile e pol base head st path =
             Inr (st\<lparr> l_retrieved := l_retrieved st @ [(base, path), (head, path)],
                      l_reports := l_reports st @
                        [\<lparr> r_file = path,
                           r_summary = \<lparr> s_decision = lit ''PASS'', s_blocks = 0, s_warns = 0,
                                         s_passes = 0 \<rparr>,
                           r_changes = [] \<rparr>] \<rparr>)"
proof -
  have p: "safeJsonParse e k None = (Some JNull, k)" for k
    using assms(3) by (simp add: safeJsonParse_def)
  have g: "gitShow e base path = None \<longleftrightarrow> gitShow e head path = None"
    using assms by simp
  have o: "fst (parsedOld e base st path) = Some JNull"
    and n: "fst (parsedNew e base head st path) = Some JNull"
    and k: "snd (parsedNew e base head st path) = l_heap st"
    using assms p by (simp_all add: parsedOld_def parsedNew_def)
  from processFile_diff[OF g o n, of pol]
  have "processFile e pol base head st path =
             Inr (st\<lparr> l_retrieved := l_retrieved st @ [(base, path), (head, path)],
                      l_reports := l_reports st @
                        [\<lparr> r_file = path,
                           r_summary = \<lparr> s_decision = lit ''PASS'', s_blocks = 0, s_warns = 0,
                                         s_passes = 0 \<rparr>,
                           r_changes = [] \<rparr>] \<rparr>)"
    unfolding k by (cases st) (simp add: diff_JNull andThen_def throwing_def)
  with assms p show ?thesis by (simp add: tryGitShow_def diff_JNull)
qed

theorem absent_at_both_witness:
  "gitShow exampleEnv (JStr (lit ''main'')) (lit ''schemas/ghost.json'') = None
   \<and> gitShow exampleEnv (JStr (lit ''HEAD'')) (lit ''schemas/ghost.json'') = None
   \<and> jsonParse exampleEnv (lit ''null'') = Some TNull
   \<and> processFile exampleEnv (loadPolicy None) (JStr (lit ''main'')) (JStr (lit ''HEAD''))
        initial (lit ''schemas/ghost.json'') =
       Inr \<lparr> l_reports =
           [\<lparr> r_file = lit ''schemas/ghost.json'',
              r_summary = \<lparr> s_decision = lit ''PASS'', s_blocks = 0, s_warns = 0, s_passes = 0 \<rparr>,
              r_changes = [] \<rparr>],
         l_anyBlock = False,
         l_retrieved = [(JStr (lit ''main''), lit ''schemas/ghost.json''),
                        (JStr (lit ''HEAD''), lit ''schemas/ghost.json'')],
         l_heap = 0 \<rparr>"
proof -
  have 1: "gitShow exampleEnv (JStr (lit ''main'')) (lit ''schemas/ghost.json'') = None"
    and 2: "gitShow exampleEnv (JStr (lit ''HEAD'')) (lit ''schemas/ghost.json'') = None"
    and 3: "jsonParse exampleEnv (lit ''null'') = Some TNull"
    by (simp_all add: exampleEnv_def lit_def)
  from absent_at_both[OF 1 2 3, of 0 "loadPolicy None" initial] 1 2 3
  show ?thesis by (simp add: initial_def)
qed

end
